theory Spec2Isabelle
  imports Complex_Main "HOL-Library.Log_Nat"
begin

section \<open>Errors\<close>

text \<open>
  Every exception the two source files can raise is a value.  The string of a
  \<open>ValueError\<close> is the message of the \<^verbatim>\<open>raise\<close> statement; the string of an
  \<open>UnboundLocalError\<close> is the name of the local variable that was read before
  any assignment.
\<close>

datatype error =
    ValueError string
  | UnboundLocalError string
  | RuntimeError
  | IndexError
  | OverflowError

section \<open>Dense tensors\<close>

text \<open>
  A tensor is its shape together with its elements in row-major order, as the
  library stores a contiguous dense tensor.  The element type is a parameter:
  real numbers give the arithmetic without rounding, the binary64 values of a
  later section the arithmetic of the machine.
\<close>

record 'a tensor =
  shape :: "nat list"
  elems :: "'a list"

definition numel :: "nat list \<Rightarrow> nat" where
  "numel s = prod_list s"

definition wf_tensor :: "'a tensor \<Rightarrow> bool" where
  "wf_tensor t \<longleftrightarrow> length (elems t) = numel (shape t)"

fun valid_index :: "nat list \<Rightarrow> nat list \<Rightarrow> bool" where
  "valid_index [] [] = True"
| "valid_index (n # s) (i # is) = (i < n \<and> valid_index s is)"
| "valid_index _ _ = False"

fun ravel :: "nat list \<Rightarrow> nat list \<Rightarrow> nat" where
  "ravel (n # s) (i # is) = i * numel s + ravel s is"
| "ravel _ _ = 0"

fun unravel :: "nat list \<Rightarrow> nat \<Rightarrow> nat list" where
  "unravel [] k = []"
| "unravel (n # s) k = (k div numel s) # unravel s (k mod numel s)"

definition elem :: "'a tensor \<Rightarrow> nat list \<Rightarrow> 'a" where
  "elem t i = elems t ! ravel (shape t) i"

definition tabulate :: "nat list \<Rightarrow> (nat list \<Rightarrow> 'a) \<Rightarrow> 'a tensor" where
  "tabulate s f = \<lparr>shape = s, elems = map (\<lambda>k. f (unravel s k)) [0..<numel s]\<rparr>"

text \<open>\<^verbatim>\<open>torch.ones(shape)\<close> and \<^verbatim>\<open>torch.zeros(shape)\<close>.\<close>

definition ones :: "nat list \<Rightarrow> real tensor" where
  "ones s = \<lparr>shape = s, elems = replicate (numel s) 1\<rparr>"

definition zeros :: "nat list \<Rightarrow> real tensor" where
  "zeros s = \<lparr>shape = s, elems = replicate (numel s) 0\<rparr>"

subsection \<open>Broadcasting\<close>

text \<open>
  Two shapes are aligned at their last dimension; two aligned sizes are
  compatible when they are equal or one of them is 1, and a missing leading
  dimension counts as 1.  The functions below work on the reversed shapes.
\<close>

fun bshape_rev :: "nat list \<Rightarrow> nat list \<Rightarrow> nat list option" where
  "bshape_rev [] ys = Some ys"
| "bshape_rev (x # xs) [] = Some (x # xs)"
| "bshape_rev (x # xs) (y # ys) =
     (if x = y \<or> y = 1 then map_option ((#) x) (bshape_rev xs ys)
      else if x = 1 then map_option ((#) y) (bshape_rev xs ys)
      else None)"

definition broadcast_shapes :: "nat list \<Rightarrow> nat list \<Rightarrow> nat list option" where
  "broadcast_shapes a b = map_option rev (bshape_rev (rev a) (rev b))"

text \<open>
  The element of a tensor of shape \<open>s\<close> that a position \<open>i\<close> of the broadcast
  result reads: the trailing \<open>length s\<close> coordinates of \<open>i\<close>, with coordinate 0
  wherever \<open>s\<close> has size 1.
\<close>

definition bidx :: "nat list \<Rightarrow> nat list \<Rightarrow> nat list" where
  "bidx s i = rev (map2 (\<lambda>n j. if n = 1 then 0 else j) (rev s) (rev i))"

definition map_tensor :: "('a \<Rightarrow> 'b) \<Rightarrow> 'a tensor \<Rightarrow> 'b tensor" where
  "map_tensor f t = \<lparr>shape = shape t, elems = map f (elems t)\<rparr>"

definition binop :: "('a \<Rightarrow> 'a \<Rightarrow> 'a) \<Rightarrow> 'a tensor \<Rightarrow> 'a tensor \<Rightarrow> error + 'a tensor" where
  "binop f a b =
     (case broadcast_shapes (shape a) (shape b) of
        None \<Rightarrow> Inl RuntimeError
      | Some s \<Rightarrow> Inr (tabulate s (\<lambda>i. f (elem a (bidx (shape a) i)) (elem b (bidx (shape b) i)))))"

section \<open>The haze operator (diffops/physics/haze.py)\<close>

text \<open>
  The atmospheric light is a Python float or a tensor: \<^verbatim>\<open>A_adjoint\<close> returns
  the float \<^verbatim>\<open>1.\<close>, and \<^verbatim>\<open>A\<close> multiplies a tensor by it.
\<close>

datatype 'a light = Scalar 'a | Tensor "'a tensor"

type_synonym 'a state = "'a tensor \<times> 'a tensor \<times> 'a light"

text \<open>
  \<^verbatim>\<open>t = torch.exp(-self.beta*d); y = t*im + (1-t)*A\<close>.  The products and the sum
  broadcast; a failing broadcast raises at the operation where it occurs.
\<close>

definition haze_A :: "real \<Rightarrow> real state \<Rightarrow> error + real tensor" where
  "haze_A beta x =
     (case x of (im, d, al) \<Rightarrow>
        let t = map_tensor exp (map_tensor (\<lambda>v. (- beta) * v) d) in
        case binop (*) t im of
          Inl e \<Rightarrow> Inl e
        | Inr p \<Rightarrow>
            let u = map_tensor (\<lambda>v. 1 - v) t in
            case (case al of
                    Scalar a \<Rightarrow> Inr (map_tensor (\<lambda>v. v * a) u)
                  | Tensor ta \<Rightarrow> binop (*) u ta) of
              Inl e \<Rightarrow> Inl e
            | Inr q \<Rightarrow> binop (+) p q)"

text \<open>
  \<^verbatim>\<open>b,c,h,w = y.shape\<close> raises a \<^verbatim>\<open>ValueError\<close> unless the shape has four entries.
\<close>

definition haze_A_adjoint :: "real tensor \<Rightarrow> error + real state" where
  "haze_A_adjoint y =
     (case shape y of
        [b, c, h, w] \<Rightarrow> Inr (y, ones [b, 1, h, w], Scalar 1)
      | _ \<Rightarrow> Inl (ValueError ''unpack''))"

subsection \<open>Broadcasting to a given shape\<close>

text \<open>
  A shape \<open>s\<close> is broadcastable to \<open>out\<close> when broadcasting the two gives
  \<open>out\<close>: aligned at the last dimension, every size of \<open>s\<close> is 1 or the size
  of \<open>out\<close>, and \<open>s\<close> is not longer than \<open>out\<close>.
\<close>

fun bto_rev :: "nat list \<Rightarrow> nat list \<Rightarrow> bool" where
  "bto_rev [] ys = True"
| "bto_rev (x # xs) [] = False"
| "bto_rev (x # xs) (y # ys) = ((x = y \<or> x = 1) \<and> bto_rev xs ys)"

definition broadcastable_to :: "nat list \<Rightarrow> nat list \<Rightarrow> bool" where
  "broadcastable_to s out = bto_rev (rev s) (rev out)"

abbreviation (input) bsel :: "nat \<Rightarrow> nat \<Rightarrow> nat" where
  "bsel \<equiv> (\<lambda>n j. if n = 1 then 0 else j)"

subsection \<open>Latent states of the haze operator\<close>

text \<open>
  A latent state is a triple (image, depth, atmospheric light) of dense tensors
  in which the depth, and the light when it is a tensor, are broadcastable to
  the shape of the image.  \<open>light_elem\<close> is the light at a position of the
  image, \<open>transmittance\<close> the factor \<open>exp (- beta * depth)\<close> there.
\<close>

definition light_elem :: "'a light \<Rightarrow> nat list \<Rightarrow> 'a" where
  "light_elem al i = (case al of Scalar a \<Rightarrow> a | Tensor ta \<Rightarrow> elem ta (bidx (shape ta) i))"

definition light_ok :: "'a light \<Rightarrow> nat list \<Rightarrow> bool" where
  "light_ok al s = (case al of Scalar a \<Rightarrow> True
                    | Tensor ta \<Rightarrow> wf_tensor ta \<and> broadcastable_to (shape ta) s)"

definition latent_state :: "'a state \<Rightarrow> bool" where
  "latent_state x = (case x of (im, d, al) \<Rightarrow>
     wf_tensor im \<and> wf_tensor d \<and> broadcastable_to (shape d) (shape im) \<and>
     light_ok al (shape im))"

definition transmittance :: "real \<Rightarrow> real tensor \<Rightarrow> nat list \<Rightarrow> real" where
  "transmittance beta d i = exp (- beta * elem d (bidx (shape d) i))"

text \<open>A small latent state: a two-channel image of two pixels and its depth.\<close>

definition im0 :: "real tensor" where "im0 = \<lparr>shape = [1, 2, 1, 2], elems = [1, 2, 3, 4]\<rparr>"

definition d0 :: "real tensor" where "d0 = \<lparr>shape = [1, 1, 1, 2], elems = [0, 1]\<rparr>"

section \<open>Python floats\<close>

text \<open>
  A Python float is an IEEE 754 binary64 number.  The finite value \<open>m * 2 ^ e\<close>
  is the pair \<open>(m, e)\<close>; \<open>round53\<close> rounds an exact value to 53 significant bits,
  to nearest with ties to even, as every float operation does with its exact
  result.  The values of this program stay in the normal range (a product
  with a constant below 1 of an integer, once that integer is a float), so
  neither underflow nor infinities are modelled; the conversion of an integer
  too large for a float raises \<^verbatim>\<open>OverflowError\<close>.
\<close>

type_synonym float = "int \<times> int"

definition round_half_even :: "int \<Rightarrow> nat \<Rightarrow> int" where
  "round_half_even m k =
     (let q = m div 2 ^ k; r = m mod 2 ^ k
      in if 2 ^ k < 2 * r \<or> (2 * r = 2 ^ k \<and> odd q) then q + 1 else q)"

definition round53 :: "int \<Rightarrow> int \<Rightarrow> float" where
  "round53 m e =
     (let k = nat (bitlen \<bar>m\<bar> - 53)
      in (sgn m * round_half_even \<bar>m\<bar> k, e + int k))"

definition float_of_int :: "int \<Rightarrow> error + float" where
  "float_of_int n =
     (case round53 n 0 of
        (m, e) \<Rightarrow> if 2 ^ 1024 \<le> \<bar>m\<bar> * 2 ^ nat e then Inl OverflowError else Inr (m, e))"

definition float_mul :: "float \<Rightarrow> float \<Rightarrow> float" where
  "float_mul x y = (case x of (m1, e1) \<Rightarrow> case y of (m2, e2) \<Rightarrow> round53 (m1 * m2) (e1 + e2))"

definition float_sub :: "float \<Rightarrow> float \<Rightarrow> float" where
  "float_sub x y =
     (case x of (m1, e1) \<Rightarrow> case y of (m2, e2) \<Rightarrow>
        let e = min e1 e2
        in round53 (m1 * 2 ^ nat (e1 - e) - m2 * 2 ^ nat (e2 - e)) e)"

text \<open>\<^verbatim>\<open>int(x)\<close> truncates toward zero.\<close>

definition int_of_float :: "float \<Rightarrow> int" where
  "int_of_float x =
     (case x of (m, e) \<Rightarrow>
        if 0 \<le> e then m * 2 ^ nat e else sgn m * (\<bar>m\<bar> div 2 ^ nat (- e)))"

text \<open>
  The literals of the source: the floats nearest to 0.08 and 0.04, and the
  exact values 0.25 and 0.125.
\<close>

definition lit_0_08 :: float where "lit_0_08 = (5764607523034235, - 56)"
definition lit_0_04 :: float where "lit_0_04 = (5764607523034235, - 57)"
definition lit_0_25 :: float where "lit_0_25 = (1, - 2)"
definition lit_0_125 :: float where "lit_0_125 = (1, - 3)"

section \<open>IEEE 754 binary64 elements\<close>

text \<open>
  The values of a tensor of type \<^verbatim>\<open>torch.float64\<close>, and of a Python float:
  \<open>Fin s m e\<close> is \<open>m * 2 ^ e\<close> for a mantissa \<open>m \<ge> 0\<close>, negated when \<open>s\<close> holds (so
  both zeros exist),
  \<open>Inf s\<close> an infinity and \<open>NaN\<close> not a number.  An operation computes its
  exact result and rounds it to 53 significant bits, to nearest with ties to
  even; the last bit never weighs less than \<open>2 ^ - 1074\<close> (subnormal numbers),
  and a result that rounds to \<open>2 ^ 1024\<close> or more is an infinity.
\<close>

datatype f64 = Fin bool int int | Inf bool | NaN

definition round64 :: "bool \<Rightarrow> int \<Rightarrow> int \<Rightarrow> f64" where
  "round64 s m e =
     (let k = nat (max (bitlen m - 53) (- 1074 - e));
          n = round_half_even m k;
          e' = e + int k
      in if 2 ^ 1024 \<le> n * 2 ^ nat e' then Inf s else Fin s n e')"

definition signed :: "bool \<Rightarrow> int \<Rightarrow> int" where
  "signed s m = (if s then - m else m)"

definition f_neg :: "f64 \<Rightarrow> f64" where
  "f_neg x = (case x of Fin s m e \<Rightarrow> Fin (\<not> s) m e | Inf s \<Rightarrow> Inf (\<not> s) | NaN \<Rightarrow> NaN)"

fun f_mul :: "f64 \<Rightarrow> f64 \<Rightarrow> f64" where
  "f_mul (Fin s m e) (Fin t n f) = round64 (s \<noteq> t) (m * n) (e + f)"
| "f_mul (Fin s m e) (Inf t) = (if m = 0 then NaN else Inf (s \<noteq> t))"
| "f_mul (Inf s) (Fin t n f) = (if n = 0 then NaN else Inf (s \<noteq> t))"
| "f_mul (Inf s) (Inf t) = Inf (s \<noteq> t)"
| "f_mul _ _ = NaN"

text \<open>
  A sum that is exactly zero is \<open>-0\<close> when both terms are negative (two
  negative zeros) and \<open>+0\<close> otherwise.
\<close>

fun f_add :: "f64 \<Rightarrow> f64 \<Rightarrow> f64" where
  "f_add (Fin s m e) (Fin t n f) =
     (let g = min e f;
          v = signed s m * 2 ^ nat (e - g) + signed t n * 2 ^ nat (f - g)
      in if v = 0 then Fin (s \<and> t) 0 0 else round64 (v < 0) \<bar>v\<bar> g)"
| "f_add (Fin s m e) (Inf t) = Inf t"
| "f_add (Inf s) (Fin t n f) = Inf s"
| "f_add (Inf s) (Inf t) = (if s = t then Inf s else NaN)"
| "f_add _ _ = NaN"

definition f_sub :: "f64 \<Rightarrow> f64 \<Rightarrow> f64" where
  "f_sub x y = f_add x (f_neg y)"

text \<open>The real number a finite value denotes.\<close>

definition valof :: "f64 \<Rightarrow> real" where
  "valof x = (case x of Fin s m e \<Rightarrow> of_int (signed s m) * 2 powr of_int e | _ \<Rightarrow> 0)"

text \<open>
  \<^verbatim>\<open>torch.exp\<close> is the library's.  It is modelled as the exponential rounded to
  the nearest binary64 value, with the special values of the standard:
  the exponential of a NaN is a NaN, of the positive infinity the positive
  infinity, of the negative infinity \<open>+0\<close>, and of either zero the rounding of
  the exact 1.
\<close>

definition nearest_int :: "real \<Rightarrow> int" where
  "nearest_int q =
     (if q - of_int \<lfloor>q\<rfloor> < 1 / 2 then \<lfloor>q\<rfloor>
      else if 1 / 2 < q - of_int \<lfloor>q\<rfloor> then \<lfloor>q\<rfloor> + 1
      else if even \<lfloor>q\<rfloor> then \<lfloor>q\<rfloor> else \<lfloor>q\<rfloor> + 1)"

definition nearest64 :: "real \<Rightarrow> f64" where
  "nearest64 r =
     (let e = max (\<lfloor>log 2 r\<rfloor> - 52) (- 1074);
          n = nearest_int (r / 2 powr of_int e)
      in if (2::real) ^ 1024 \<le> of_int n * 2 powr of_int e then Inf False else Fin False n e)"

definition f_exp :: "f64 \<Rightarrow> f64" where
  "f_exp x =
     (case x of
        Fin s m e \<Rightarrow> nearest64 (exp (valof x))
      | Inf s \<Rightarrow> if s then Fin False 0 0 else Inf False
      | NaN \<Rightarrow> NaN)"

text \<open>The comparisons \<^verbatim>\<open>==\<close> and \<^verbatim>\<open><=\<close> of floats: false with a NaN on either side.\<close>

definition scaled :: "bool \<Rightarrow> int \<Rightarrow> int \<Rightarrow> int \<Rightarrow> int" where
  "scaled s m e g = signed s m * 2 ^ nat (e - g)"

fun f_eq :: "f64 \<Rightarrow> f64 \<Rightarrow> bool" where
  "f_eq (Fin s m e) (Fin t n f) = (scaled s m e (min e f) = scaled t n f (min e f))"
| "f_eq (Inf s) (Inf t) = (s = t)"
| "f_eq _ _ = False"

fun f_le :: "f64 \<Rightarrow> f64 \<Rightarrow> bool" where
  "f_le (Fin s m e) (Fin t n f) = (scaled s m e (min e f) \<le> scaled t n f (min e f))"
| "f_le (Fin s m e) (Inf t) = (\<not> t)"
| "f_le (Inf s) (Fin t n f) = s"
| "f_le (Inf s) (Inf t) = (s \<or> \<not> t)"
| "f_le _ _ = False"

text \<open>
  The finite values a binary64 datum can hold: at most 53 bits, an exponent
  of the last bit from \<open>- 1074\<close> to 971.
\<close>

definition finite64 :: "f64 \<Rightarrow> bool" where
  "finite64 x =
     (case x of
        Fin s m e \<Rightarrow> 0 \<le> m \<and> m < 2 ^ 53 \<and> - 1074 \<le> e \<and> e \<le> 971
      | _ \<Rightarrow> False)"

section \<open>The haze operator on binary64 tensors\<close>

text \<open>
  The same lines of \<^verbatim>\<open>haze.py\<close> with the arithmetic of the machine.  The
  scalar \<^verbatim>\<open>beta\<close> and a scalar light are Python floats, the literal \<^verbatim>\<open>1\<close> enters
  the subtraction as the float one.
\<close>

definition one64 :: f64 where
  "one64 = Fin False 1 0"

definition haze_A_f64 :: "f64 \<Rightarrow> f64 state \<Rightarrow> error + f64 tensor" where
  "haze_A_f64 beta x =
     (case x of (im, d, al) \<Rightarrow>
        let t = map_tensor f_exp (map_tensor (\<lambda>v. f_mul (f_neg beta) v) d) in
        case binop f_mul t im of
          Inl e \<Rightarrow> Inl e
        | Inr p \<Rightarrow>
            let u = map_tensor (\<lambda>v. f_sub one64 v) t in
            case (case al of
                    Scalar a \<Rightarrow> Inr (map_tensor (\<lambda>v. f_mul v a) u)
                  | Tensor ta \<Rightarrow> binop f_mul u ta) of
              Inl e \<Rightarrow> Inl e
            | Inr q \<Rightarrow> binop f_add p q)"

text \<open>The weight of the image at a position, and the element a call returned.\<close>

definition transmittance64 :: "f64 \<Rightarrow> f64 tensor \<Rightarrow> nat list \<Rightarrow> f64" where
  "transmittance64 beta d i = f_exp (f_mul (f_neg beta) (elem d (bidx (shape d) i)))"

definition out_elem :: "error + 'a tensor \<Rightarrow> nat list \<Rightarrow> 'a option" where
  "out_elem res i = (case res of Inl e \<Rightarrow> None | Inr y \<Rightarrow> Some (elem y i))"

text \<open>
  A zero of either sign, and a light all of whose values are finite.
\<close>

definition is_zero64 :: "f64 \<Rightarrow> bool" where
  "is_zero64 x = (case x of Fin s m e \<Rightarrow> m = 0 | _ \<Rightarrow> False)"

definition finite_light :: "f64 light \<Rightarrow> bool" where
  "finite_light al =
     (case al of Scalar a \<Rightarrow> finite64 a | Tensor ta \<Rightarrow> list_all finite64 (elems ta))"

text \<open>
  A two-channel image of two pixels with its depth, and the tensor of shape
  \<open>(1, 1, 1, 1)\<close> that holds one value.
\<close>

definition im64 :: "f64 tensor" where
  "im64 = \<lparr>shape = [1, 2, 1, 2],
           elems = [Fin False 1 0, Fin True 0 0, Fin False 5 (- 1), Fin False 3 0]\<rparr>"

definition d64 :: "f64 tensor" where
  "d64 = \<lparr>shape = [1, 1, 1, 2], elems = [Fin False 1 (- 1), Fin False 7 0]\<rparr>"

definition px64 :: "f64 \<Rightarrow> f64 tensor" where
  "px64 v = \<lparr>shape = [1, 1, 1, 1], elems = [v]\<rparr>"

section \<open>The acceleration mask generator (physics/generator/mri.py)\<close>

text \<open>
  The generator keeps \<^verbatim>\<open>img_size\<close> and \<^verbatim>\<open>acceleration\<close>; the device does not
  enter any result.  The constructor stores its arguments without looking at
  them (what the base class does with \<^verbatim>\<open>shape\<close> and \<^verbatim>\<open>device\<close> is outside the
  two source files).
\<close>

record generator =
  img_size :: "int list"
  acceleration :: int

definition AccelerationMaskGenerator :: "int list \<Rightarrow> int \<Rightarrow> generator" where
  "AccelerationMaskGenerator sz acc = \<lparr>img_size = sz, acceleration = acc\<rparr>"

text \<open>Lines 46 to 52: \<open>(C, H, W)\<close> from \<^verbatim>\<open>img_size\<close>.\<close>

definition mask_dims :: "generator \<Rightarrow> error + (int \<times> int \<times> int)" where
  "mask_dims g =
     (case img_size g of
        [H, W] \<Rightarrow> Inr (2, H, W)
      | [C, H, W] \<Rightarrow> Inr (C, H, W)
      | _ \<Rightarrow> Inl (ValueError ''img_size must be (C, H, W) or (H, W)''))"

text \<open>
  The body of either branch of lines 56 to 65, for the literal
  \<^verbatim>\<open>central_lines_percent\<close> and the literal it is subtracted from:
  \<open>(num_lines_center, num_lines_side)\<close>.
\<close>

definition num_lines :: "float \<Rightarrow> float \<Rightarrow> int \<Rightarrow> error + (int \<times> int)" where
  "num_lines central_lines_percent whole W =
     (case float_of_int W of
        Inl e \<Rightarrow> Inl e
      | Inr w \<Rightarrow>
          let num_lines_center = int_of_float (float_mul central_lines_percent w);
              side_lines_percent = float_sub whole central_lines_percent;
              num_lines_side = int_of_float (float_mul side_lines_percent w)
          in Inr (num_lines_center, num_lines_side))"

text \<open>
  Lines 54 to 65.  The two \<^verbatim>\<open>if\<close> statements exclude each other; for any other
  factor neither runs and the two variables stay unassigned (\<open>None\<close>).
\<close>

definition density :: "int \<Rightarrow> int \<Rightarrow> error + (int \<times> int) option" where
  "density acceleration_factor W =
     (if acceleration_factor = 4 then map_sum id Some (num_lines lit_0_08 lit_0_25 W)
      else if acceleration_factor = 8 then map_sum id Some (num_lines lit_0_04 lit_0_125 W)
      else Inr None)"

text \<open>\<^verbatim>\<open>torch.zeros(sizes)\<close> refuses a negative size.\<close>

definition torch_zeros :: "int list \<Rightarrow> error + real tensor" where
  "torch_zeros sizes =
     (if \<exists>n \<in> set sizes. n < 0 then Inl RuntimeError else Inr (zeros (map nat sizes)))"

text \<open>
  \<^verbatim>\<open>torch.linspace(start, stop, steps, dtype=torch.long)\<close>: the \<open>steps\<close> values
  evenly spaced from \<open>start\<close> to \<open>stop\<close>, both included, each converted to an
  integer by dropping its fraction.  The library is not part of the sources;
  this is its documented result, with the spacing computed exactly.
\<close>

definition trunc :: "rat \<Rightarrow> int" where
  "trunc x = (if 0 \<le> x then \<lfloor>x\<rfloor> else \<lceil>x\<rceil>)"

definition linspace :: "int \<Rightarrow> int \<Rightarrow> nat \<Rightarrow> int list" where
  "linspace start stop steps =
     (if steps = 1 then [start]
      else map (\<lambda>i. trunc (of_int start + of_nat i * (of_int (stop - start) / of_nat (steps - 1))))
             [0..<steps])"

text \<open>Lines 69 to 74.\<close>

definition center_line_indices :: "int \<Rightarrow> int \<Rightarrow> int list" where
  "center_line_indices H num_lines_center =
     linspace (H div 2 - num_lines_center div 2) (H div 2 + num_lines_center div 2 + 1) 50"

text \<open>
  An index into a dimension of size \<open>n\<close> lies in \<open>[-n, n)\<close>; a negative one counts
  from the end.  Anything else raises \<^verbatim>\<open>IndexError\<close>.
\<close>

definition wrap :: "nat \<Rightarrow> int \<Rightarrow> nat" where
  "wrap n j = nat (if j < 0 then j + int n else j)"

definition wrap_indices :: "nat \<Rightarrow> int list \<Rightarrow> error + nat list" where
  "wrap_indices n js =
     (if \<forall>j \<in> set js. - int n \<le> j \<and> j < int n then Inr (map (wrap n) js) else Inl IndexError)"

text \<open>
  \<^verbatim>\<open>mask[:, :, js] = 1\<close> (\<open>b = None\<close>) and \<^verbatim>\<open>mask[b, :, js] = 1\<close> on a tensor of three
  dimensions: the indices select positions of the last dimension.
\<close>

definition assign_lines :: "nat option \<Rightarrow> real tensor \<Rightarrow> int list \<Rightarrow> error + real tensor" where
  "assign_lines b msk js =
     (case wrap_indices (shape msk ! 2) js of
        Inl e \<Rightarrow> Inl e
      | Inr ks \<Rightarrow>
          Inr (tabulate (shape msk)
                 (\<lambda>i. if (b = None \<or> b = Some (i ! 0)) \<and> i ! 2 \<in> set ks then 1
                      else elem msk i)))"

text \<open>
  \<^verbatim>\<open>np.random.choice(H, size=(k,), replace=False)\<close> refuses a sample larger than the
  population.  Its result is not a function of its arguments: the array it
  returns is a parameter of the model (\<open>outcome\<close>), and \<open>valid_draw\<close> says what
  the library promises of it.
\<close>

definition np_random_choice :: "int \<Rightarrow> int \<Rightarrow> int list \<Rightarrow> error + int list" where
  "np_random_choice H k outcome =
     (if H < k then Inl (ValueError ''Cannot take a larger sample than population'')
      else Inr outcome)"


text \<open>Lines 77 to 81; \<open>draws i\<close> is what the \<open>i\<close>-th call of the random choice returns.\<close>

fun random_lines :: "int \<Rightarrow> int \<Rightarrow> (nat \<Rightarrow> int list) \<Rightarrow> nat list \<Rightarrow> real tensor \<Rightarrow> error + real tensor" where
  "random_lines H k draws [] msk = Inr msk"
| "random_lines H k draws (i # is) msk =
     (case np_random_choice H k (draws i) of
        Inl e \<Rightarrow> Inl e
      | Inr random_line_indices \<Rightarrow>
          (case assign_lines (Some i) msk random_line_indices of
             Inl e \<Rightarrow> Inl e
           | Inr mask' \<Rightarrow> random_lines H k draws is mask'))"

text \<open>
  \<^verbatim>\<open>mask.float().unsqueeze(1)\<close> puts a dimension of size 1 after the first;
  \<^verbatim>\<open>torch.cat(ts, dim=1)\<close> of tensors of shape \<open>(B, 1, H, W)\<close> stacks them along
  that dimension and refuses an empty list.
\<close>

definition unsqueeze1 :: "'a tensor \<Rightarrow> 'a tensor" where
  "unsqueeze1 t = \<lparr>shape = hd (shape t) # 1 # tl (shape t), elems = elems t\<rparr>"

definition cat1 :: "'a tensor list \<Rightarrow> error + 'a tensor" where
  "cat1 ts =
     (case ts of
        [] \<Rightarrow> Inl RuntimeError
      | t # _ \<Rightarrow>
          Inr (tabulate [shape t ! 0, length ts, shape t ! 2, shape t ! 3]
                 (\<lambda>i. elem (ts ! (i ! 1)) [i ! 0, 0, i ! 2, i ! 3])))"

text \<open>Lines 37 to 83.\<close>

definition step :: "generator \<Rightarrow> int \<Rightarrow> (nat \<Rightarrow> int list) \<Rightarrow> error + (string \<rightharpoonup> real tensor)" where
  "step g batch_size draws =
     (case mask_dims g of
        Inl e \<Rightarrow> Inl e
      | Inr (C, H, W) \<Rightarrow>
     (case density (acceleration g) W of
        Inl e \<Rightarrow> Inl e
      | Inr lines \<Rightarrow>
     (case torch_zeros [batch_size, H, W] of
        Inl e \<Rightarrow> Inl e
      | Inr mask0 \<Rightarrow>
     (case lines of
        None \<Rightarrow> Inl (UnboundLocalError ''num_lines_center'')
      | Some (num_lines_center, num_lines_side) \<Rightarrow>
     (case assign_lines None mask0 (center_line_indices H num_lines_center) of
        Inl e \<Rightarrow> Inl e
      | Inr mask1 \<Rightarrow>
     (case random_lines H (num_lines_side div 2) draws [0..<nat batch_size] mask1 of
        Inl e \<Rightarrow> Inl e
      | Inr msk \<Rightarrow>
     (case cat1 (replicate (nat C) (unsqueeze1 msk)) of
        Inl e \<Rightarrow> Inl e
      | Inr t \<Rightarrow> Inr [''mask'' \<mapsto> t])))))))"

text \<open>The element of the mask that a call returned, if it returned one.\<close>

definition mask_elem :: "error + (string \<rightharpoonup> real tensor) \<Rightarrow> nat list \<Rightarrow> real option" where
  "mask_elem res i =
     (case res of
        Inl e \<Rightarrow> None
      | Inr r \<Rightarrow> (case r ''mask'' of None \<Rightarrow> None | Some m \<Rightarrow> Some (elem m i)))"

definition mask_shape :: "error + (string \<rightharpoonup> real tensor) \<Rightarrow> nat list option" where
  "mask_shape res =
     (case res of
        Inl e \<Rightarrow> None
      | Inr r \<Rightarrow> (case r ''mask'' of None \<Rightarrow> None | Some m \<Rightarrow> Some (shape m)))"

text \<open>The documented example, and one random line per batch element.\<close>

definition gen16 :: generator where
  "gen16 = AccelerationMaskGenerator [16, 16] 4"

definition draws16 :: "nat \<Rightarrow> int list" where
  "draws16 i = [3]"

text \<open>The \<open>i\<close>-th of the 50 evenly spaced values, before its fraction is dropped.\<close>

definition lin_value :: "int \<Rightarrow> int \<Rightarrow> nat \<Rightarrow> rat" where
  "lin_value start stop i = of_int start + of_nat i * (of_int (stop - start) / 49)"

section \<open>Properties of the tensor model\<close>

lemma numel_Cons [simp]: "numel (n # s) = n * numel s"
  by (simp add: numel_def)

lemma numel_Nil [simp]: "numel [] = 1"
  by (simp add: numel_def)

lemma ravel_less: "valid_index s i \<Longrightarrow> ravel s i < numel s"
proof (induction s i rule: valid_index.induct)
  case (2 n s i "is")
  then have "i < n" and r: "ravel s is < numel s" by simp_all
  then have "Suc i \<le> n" by simp
  then have "Suc i * numel s \<le> n * numel s" by (rule mult_le_mono1)
  with r show ?case by simp
qed simp_all

lemma unravel_ravel: "valid_index s i \<Longrightarrow> unravel s (ravel s i) = i"
proof (induction s i rule: valid_index.induct)
  case (2 n s i "is")
  then have r: "ravel s is < numel s" by (simp add: ravel_less)
  with 2 show ?case by simp
qed simp_all

lemma valid_unravel: "k < numel s \<Longrightarrow> valid_index s (unravel s k)"
proof (induction s arbitrary: k)
  case (Cons n s)
  then have pos: "0 < numel s" by (cases "numel s") simp_all
  from Cons.prems have "k div numel s < n"
    by (simp add: less_mult_imp_div_less)
  with Cons.IH pos show ?case by simp
qed simp

lemma ravel_unravel: "k < numel s \<Longrightarrow> ravel s (unravel s k) = k"
proof (induction s arbitrary: k)
  case (Cons n s)
  then have pos: "0 < numel s" by (cases "numel s") simp_all
  then have "ravel s (unravel s (k mod numel s)) = k mod numel s"
    by (simp add: Cons.IH)
  then show ?case by simp
qed simp

lemma shape_tabulate [simp]: "shape (tabulate s f) = s"
  by (simp add: tabulate_def)

lemma wf_tabulate [simp]: "wf_tensor (tabulate s f)"
  by (simp add: tabulate_def wf_tensor_def)

lemma elem_tabulate: "valid_index s i \<Longrightarrow> elem (tabulate s f) i = f i"
  by (simp add: elem_def tabulate_def ravel_less unravel_ravel)

lemma shape_ones [simp]: "shape (ones s) = s"
  by (simp add: ones_def)

lemma elem_ones: "valid_index s i \<Longrightarrow> elem (ones s) i = 1"
  by (simp add: elem_def ones_def ravel_less)

lemma bshape_rev_left: "bshape_rev xs ys = Some ys \<longleftrightarrow> bto_rev xs ys"
  by (induction xs ys rule: bshape_rev.induct) auto

lemma bto_rev_Nil [simp]: "bto_rev xs [] \<longleftrightarrow> xs = []"
  by (cases xs) auto

lemma bshape_rev_right: "bshape_rev ys xs = Some ys \<longleftrightarrow> bto_rev xs ys"
  by (induction ys xs rule: bshape_rev.induct) auto

lemma bto_rev_refl: "bto_rev xs xs"
  by (induction xs) auto

lemma bshape_rev_join:
  "bto_rev d i \<Longrightarrow> bto_rev a i \<Longrightarrow>
   \<exists>s. bshape_rev d a = Some s \<and> bto_rev s i \<and> bto_rev d s \<and> bto_rev a s"
proof (induction d a arbitrary: i rule: bshape_rev.induct)
  case (1 ys)
  then show ?case by (simp add: bto_rev_refl)
next
  case (2 x xs)
  then show ?case by (simp add: bto_rev_refl)
next
  case (3 x xs y ys)
  then obtain z zs where i: "i = z # zs" by (cases i) auto
  with 3 show ?case by fastforce
qed

lemma valid_index_all2: "valid_index s i \<longleftrightarrow> list_all2 (\<lambda>n j. j < n) s i"
  by (induction s i rule: valid_index.induct) auto

lemma valid_index_rev: "valid_index (rev s) (rev i) \<longleftrightarrow> valid_index s i"
  by (simp add: valid_index_all2)

lemma bto_rev_valid:
  "bto_rev s out \<Longrightarrow> valid_index out i \<Longrightarrow> valid_index s (map2 bsel s i)"
proof (induction s out arbitrary: i rule: bto_rev.induct)
  case (3 x xs y ys)
  then obtain j js where "i = j # js" by (cases i) auto
  with 3 show ?case by auto
qed auto

lemma bto_rev_compose:
  "bto_rev s s' \<Longrightarrow> bto_rev s' out \<Longrightarrow> valid_index out i \<Longrightarrow>
   map2 bsel s (map2 bsel s' i) = map2 bsel s i"
proof (induction s s' arbitrary: out i rule: bto_rev.induct)
  case (3 x xs y ys)
  then obtain z zs where o: "out = z # zs" by (cases out) auto
  with 3 obtain j js where "i = j # js" by (cases i) auto
  with 3 o show ?case by auto
qed auto

lemma valid_bsel_id: "valid_index s i \<Longrightarrow> map2 bsel s i = i"
  by (induction s i rule: valid_index.induct) auto

lemma broadcast_shapes_to:
  "broadcast_shapes s out = Some out \<longleftrightarrow> broadcastable_to s out"
  by (auto simp: broadcast_shapes_def broadcastable_to_def bshape_rev_left[symmetric] rev_swap)

lemma broadcast_shapes_from:
  "broadcast_shapes out s = Some out \<longleftrightarrow> broadcastable_to s out"
  by (auto simp: broadcast_shapes_def broadcastable_to_def bshape_rev_right[symmetric] rev_swap)

lemma broadcast_shapes_join:
  assumes "broadcastable_to d i" "broadcastable_to a i"
  shows "\<exists>s. broadcast_shapes d a = Some s \<and> broadcastable_to s i \<and>
             broadcastable_to d s \<and> broadcastable_to a s"
proof -
  from bshape_rev_join[OF assms[unfolded broadcastable_to_def]]
  obtain r where r: "bshape_rev (rev d) (rev a) = Some r" "bto_rev r (rev i)"
     "bto_rev (rev d) r" "bto_rev (rev a) r" by blast
  then show ?thesis
    by (auto simp: broadcast_shapes_def broadcastable_to_def)
qed

lemma valid_bidx:
  "broadcastable_to s out \<Longrightarrow> valid_index out i \<Longrightarrow> valid_index s (bidx s i)"
  unfolding broadcastable_to_def bidx_def
  using bto_rev_valid[of "rev s" "rev out" "rev i"] valid_index_rev
  by (metis rev_rev_ident)

lemma bidx_compose:
  "broadcastable_to s s' \<Longrightarrow> broadcastable_to s' out \<Longrightarrow> valid_index out i \<Longrightarrow>
   bidx s (bidx s' i) = bidx s i"
  unfolding broadcastable_to_def bidx_def
  using bto_rev_compose[of "rev s" "rev s'" "rev out" "rev i"]
  by (simp add: valid_index_rev)

lemma bidx_id: "valid_index s i \<Longrightarrow> bidx s i = i"
  unfolding bidx_def using valid_bsel_id[of "rev s" "rev i"]
  by (simp add: valid_index_rev)

lemma shape_map_tensor [simp]: "shape (map_tensor f t) = shape t"
  by (simp add: map_tensor_def)

lemma wf_map_tensor [simp]: "wf_tensor (map_tensor f t) = wf_tensor t"
  by (simp add: map_tensor_def wf_tensor_def)

lemma elem_map_tensor:
  "wf_tensor t \<Longrightarrow> valid_index (shape t) i \<Longrightarrow> elem (map_tensor f t) i = f (elem t i)"
  by (simp add: elem_def map_tensor_def wf_tensor_def ravel_less)

lemma tensor_eqI:
  assumes "shape a = shape b" "wf_tensor a" "wf_tensor b"
    and "\<And>i. valid_index (shape a) i \<Longrightarrow> elem a i = elem b i"
  shows "a = b"
proof -
  have "elems a = elems b"
  proof (rule nth_equalityI)
    show "length (elems a) = length (elems b)"
      using assms by (simp add: wf_tensor_def)
  next
    fix k assume "k < length (elems a)"
    then have k: "k < numel (shape a)" using assms by (simp add: wf_tensor_def)
    then have "elem a (unravel (shape a) k) = elem b (unravel (shape a) k)"
      by (simp add: assms(4) valid_unravel)
    with k show "elems a ! k = elems b ! k"
      using assms(1) by (simp add: elem_def ravel_unravel)
  qed
  with assms(1) show ?thesis by simp
qed

lemma binop_to:
  assumes "broadcastable_to (shape a) (shape b)"
  shows "binop f a b = Inr (tabulate (shape b)
           (\<lambda>i. f (elem a (bidx (shape a) i)) (elem b (bidx (shape b) i))))"
  using assms by (simp add: binop_def broadcast_shapes_to[symmetric])

lemma binop_from:
  assumes "broadcastable_to (shape b) (shape a)"
  shows "binop f a b = Inr (tabulate (shape a)
           (\<lambda>i. f (elem a (bidx (shape a) i)) (elem b (bidx (shape b) i))))"
  using assms by (simp add: binop_def broadcast_shapes_from[symmetric])

lemma haze_A_elem:
  assumes "latent_state (im, d, al)"
  shows "\<exists>y. haze_A beta (im, d, al) = Inr y \<and> shape y = shape im \<and> wf_tensor y \<and>
           (\<forall>i. valid_index (shape im) i \<longrightarrow>
              elem y i = transmittance beta d i * elem im i +
                         (1 - transmittance beta d i) * light_elem al i)"
proof -
  from assms have wf: "wf_tensor im" "wf_tensor d"
    and bd: "broadcastable_to (shape d) (shape im)" and lo: "light_ok al (shape im)"
    by (simp_all add: latent_state_def)
  define t where "t = map_tensor exp (map_tensor (\<lambda>v. (- beta) * v) d)"
  define u where "u = map_tensor (\<lambda>v. 1 - v) t"
  define p where "p = tabulate (shape im)
     (\<lambda>i. elem t (bidx (shape t) i) * elem im (bidx (shape im) i))"
  have st: "shape t = shape d" "shape u = shape d" and wt: "wf_tensor t" "wf_tensor u"
    using wf by (simp_all add: t_def u_def)
  have et: "elem t j = exp (- beta * elem d j)" if "valid_index (shape d) j" for j
    using that wf by (simp add: t_def elem_map_tensor)
  have eu: "elem u j = 1 - exp (- beta * elem d j)" if "valid_index (shape d) j" for j
    using that wt st by (simp add: u_def elem_map_tensor et)
  have P: "binop (*) t im = Inr p"
    unfolding p_def using bd st by (simp add: binop_to)
  have ep: "elem p i = transmittance beta d i * elem im i" if "valid_index (shape im) i" for i
    using that bd by (simp add: p_def elem_tabulate st et valid_bidx bidx_id transmittance_def)
  have "\<exists>q. (case al of Scalar a \<Rightarrow> Inr (map_tensor (\<lambda>v. v * a) u)
                  | Tensor ta \<Rightarrow> binop (*) u ta) = Inr q \<and>
             broadcastable_to (shape q) (shape im) \<and> wf_tensor q \<and>
             (\<forall>i. valid_index (shape im) i \<longrightarrow>
                elem q (bidx (shape q) i) = (1 - transmittance beta d i) * light_elem al i)"
  proof (cases al)
    case (Scalar a)
    have "elem (map_tensor (\<lambda>v. v * a) u) (bidx (shape d) i) =
          (1 - transmittance beta d i) * a" if "valid_index (shape im) i" for i
      using that bd wt st
      by (simp add: elem_map_tensor valid_bidx eu transmittance_def)
    with Scalar bd wt st show ?thesis
      by (simp add: light_elem_def)
  next
    case (Tensor ta)
    with lo have wa: "wf_tensor ta" and ba: "broadcastable_to (shape ta) (shape im)"
      by (simp_all add: light_ok_def)
    from broadcast_shapes_join[OF bd ba] obtain s where
      s: "broadcast_shapes (shape d) (shape ta) = Some s" "broadcastable_to s (shape im)"
         "broadcastable_to (shape d) s" "broadcastable_to (shape ta) s" by blast
    define q where "q = tabulate s
       (\<lambda>i. elem u (bidx (shape u) i) * elem ta (bidx (shape ta) i))"
    have Q: "binop (*) u ta = Inr q"
      using s(1) st by (simp add: binop_def q_def)
    have "elem q (bidx s i) = (1 - transmittance beta d i) * light_elem al i"
      if v: "valid_index (shape im) i" for i
    proof -
      have vs: "valid_index s (bidx s i)" using s(2) v by (rule valid_bidx)
      have "valid_index (shape d) (bidx (shape d) i)" using bd v by (rule valid_bidx)
      with vs v s show ?thesis
        by (simp add: q_def elem_tabulate st bidx_compose eu Tensor light_elem_def
            transmittance_def)
    qed
    with Q s(2) Tensor show ?thesis
      by (simp add: q_def)
  qed
  then obtain q where
    Q: "(case al of Scalar a \<Rightarrow> Inr (map_tensor (\<lambda>v. v * a) u)
                  | Tensor ta \<Rightarrow> binop (*) u ta) = Inr q"
    and bq: "broadcastable_to (shape q) (shape im)"
    and eq: "\<And>i. valid_index (shape im) i \<Longrightarrow>
                elem q (bidx (shape q) i) = (1 - transmittance beta d i) * light_elem al i"
    by blast
  define y where "y = tabulate (shape im)
     (\<lambda>i. elem p (bidx (shape p) i) + elem q (bidx (shape q) i))"
  have sp: "shape p = shape im" by (simp add: p_def)
  have Y: "binop (+) p q = Inr y"
    unfolding y_def using bq sp by (simp add: binop_from)
  have "haze_A beta (im, d, al) =
      (case binop (*) t im of Inl e \<Rightarrow> Inl e
       | Inr p \<Rightarrow>
           (case (case al of Scalar a \<Rightarrow> Inr (map_tensor (\<lambda>v. v * a) u)
                  | Tensor ta \<Rightarrow> binop (*) u ta) of
              Inl e \<Rightarrow> Inl e | Inr q \<Rightarrow> binop (+) p q))"
    by (simp only: haze_A_def t_def u_def Let_def prod.case)
  then have "haze_A beta (im, d, al) = Inr y"
    by (simp only: P Q Y sum.case)
  moreover have "elem y i = transmittance beta d i * elem im i +
                         (1 - transmittance beta d i) * light_elem al i"
    if "valid_index (shape im) i" for i
    using that by (simp add: y_def elem_tabulate sp bidx_id ep eq)
  ultimately show ?thesis
    by (auto simp: y_def)
qed

lemma convex_between:
  fixes a b t :: real
  assumes "0 \<le> t" "t \<le> 1"
  shows "min a b \<le> t * a + (1 - t) * b" and "t * a + (1 - t) * b \<le> max a b"
proof -
  have lo: "min a b * t \<le> a * t" "min a b * (1 - t) \<le> b * (1 - t)"
    using assms by (simp_all add: mult_right_mono)
  have "min a b = min a b * t + min a b * (1 - t)" by (simp add: algebra_simps)
  also have "\<dots> \<le> a * t + b * (1 - t)" using lo by (rule add_mono)
  finally show "min a b \<le> t * a + (1 - t) * b" by (simp add: mult.commute)
  have hi: "a * t \<le> max a b * t" "b * (1 - t) \<le> max a b * (1 - t)"
    using assms by (simp_all add: mult_right_mono)
  have "a * t + b * (1 - t) \<le> max a b * t + max a b * (1 - t)"
    using hi by (rule add_mono)
  also have "\<dots> = max a b" by (simp add: algebra_simps)
  finally show "t * a + (1 - t) * b \<le> max a b" by (simp add: mult.commute)
qed

lemma elem_mem: "wf_tensor t \<Longrightarrow> valid_index (shape t) i \<Longrightarrow> elem t i \<in> set (elems t)"
  by (simp add: elem_def wf_tensor_def ravel_less)

lemma transmittance_range:
  assumes "latent_state (im, d, al)" "0 \<le> beta" "\<forall>v \<in> set (elems d). 0 \<le> v"
    and "valid_index (shape im) i"
  shows "0 < transmittance beta d i" "transmittance beta d i \<le> 1"
proof -
  from assms(1) have "wf_tensor d" "broadcastable_to (shape d) (shape im)"
    by (simp_all add: latent_state_def)
  with assms(4) have "elem d (bidx (shape d) i) \<in> set (elems d)"
    by (simp add: elem_mem valid_bidx)
  with assms(3) have "0 \<le> elem d (bidx (shape d) i)" by blast
  with assms(2) have "0 \<le> beta * elem d (bidx (shape d) i)" by simp
  then show "transmittance beta d i \<le> 1" by (simp add: transmittance_def)
  show "0 < transmittance beta d i" by (simp add: transmittance_def)
qed

lemma latent0: "latent_state (im0, d0, Scalar 5)"
  by (simp add: latent_state_def im0_def d0_def wf_tensor_def light_ok_def broadcastable_to_def)

section \<open>Properties of the mask generator\<close>

lemma trunc_of_int [simp]: "trunc (of_int n) = n"
  by (simp add: trunc_def)

lemma trunc_mono:
  assumes "x \<le> y"
  shows "trunc x \<le> trunc y"
proof -
  consider "0 \<le> x" | "x < 0" "y < 0" | "x < 0" "0 \<le> y" by linarith
  then show ?thesis
  proof cases
    case 1
    with assms show ?thesis by (simp add: trunc_def floor_mono)
  next
    case 2
    with assms show ?thesis by (simp add: trunc_def ceiling_mono)
  next
    case 3
    then have "\<lceil>x\<rceil> \<le> 0" "0 \<le> \<lfloor>y\<rfloor>" by (simp_all add: ceiling_le_zero)
    then have "\<lceil>x\<rceil> \<le> \<lfloor>y\<rfloor>" by (rule order_trans)
    moreover have "trunc x = \<lceil>x\<rceil>" "trunc y = \<lfloor>y\<rfloor>"
      using 3 by (simp_all add: trunc_def)
    ultimately show ?thesis by (simp only:)
  qed
qed

lemma trunc_step: "0 \<le> d \<Longrightarrow> d \<le> 1 \<Longrightarrow> trunc (x + d) \<le> trunc x + 1"
  unfolding trunc_def by (auto; linarith)

lemma steps_cover:
  fixes f :: "nat \<Rightarrow> int"
  assumes "\<And>i. i < n \<Longrightarrow> f i \<le> f (Suc i) \<and> f (Suc i) \<le> f i + 1"
  shows "f ` {0..n} = {f 0..f n}"
  using assms
proof (induction n)
  case 0
  then show ?case by simp
next
  case (Suc n)
  then have ih: "f ` {0..n} = {f 0..f n}" by simp
  have mono: "f 0 \<le> f n"
    using ih by (metis atLeastAtMost_iff atLeast0AtMost atMost_iff image_eqI order_refl)
  have st: "f n \<le> f (Suc n)" "f (Suc n) \<le> f n + 1" using Suc.prems[of n] by simp_all
  have "f ` {0..Suc n} = insert (f (Suc n)) (f ` {0..n})"
    by (simp add: atLeast0_atMost_Suc)
  also have "\<dots> = insert (f (Suc n)) {f 0..f n}" by (simp only: ih)
  also have "\<dots> = {f 0..f (Suc n)}" using mono st by auto
  finally show ?case .
qed

lemma linspace_50:
  "linspace start stop 50 = map (\<lambda>i. trunc (lin_value start stop i)) [0..<50]"
  by (simp add: linspace_def lin_value_def)

lemma length_center_line_indices [simp]: "length (center_line_indices H n) = 50"
  by (simp add: center_line_indices_def linspace_50)

lemma linspace_50_set:
  assumes "start \<le> stop" "stop - start \<le> 49"
  shows "set (linspace start stop 50) = {start..stop}"
proof -
  define f where "f i = trunc (lin_value start stop i)" for i
  define d :: rat where "d = of_int (stop - start) / 49"
  have d: "0 \<le> d" "d \<le> 1" using assms by (simp_all add: d_def)
  have "f i \<le> f (Suc i) \<and> f (Suc i) \<le> f i + 1" for i
  proof -
    have e: "lin_value start stop (Suc i) = lin_value start stop i + d"
      by (simp add: lin_value_def d_def distrib_right)
    show ?thesis
      unfolding f_def e using d by (simp add: trunc_mono trunc_step)
  qed
  then have "f ` {0..49} = {f 0..f 49}" by (intro steps_cover) simp
  moreover have "f 0 = start" by (simp add: f_def lin_value_def)
  moreover have "f 49 = stop"
  proof -
    have "lin_value start stop 49 = of_int stop"
      by (simp add: lin_value_def diff_divide_distrib)
    then show ?thesis by (simp add: f_def)
  qed
  moreover have "set (linspace start stop 50) = f ` {0..49}"
  proof -
    have "{0..<50::nat} = {0..49}" by auto
    then show ?thesis by (simp add: linspace_50 f_def)
  qed
  ultimately show ?thesis by simp
qed

lemma shape_zeros [simp]: "shape (zeros s) = s"
  by (simp add: zeros_def)

lemma wf_zeros [simp]: "wf_tensor (zeros s)"
  by (simp add: zeros_def wf_tensor_def)

lemma elem_zeros: "valid_index s i \<Longrightarrow> elem (zeros s) i = 0"
  by (simp add: elem_def zeros_def ravel_less)

lemma torch_zeros_Inr:
  "torch_zeros [b, h, w] = Inr m \<longleftrightarrow> 0 \<le> b \<and> 0 \<le> h \<and> 0 \<le> w \<and> m = zeros [nat b, nat h, nat w]"
  by (auto simp: torch_zeros_def)

lemma wrap_indices_Inr:
  "wrap_indices n js = Inr ks \<longleftrightarrow>
     (\<forall>j \<in> set js. - int n \<le> j \<and> j < int n) \<and> ks = map (wrap n) js"
  by (auto simp: wrap_indices_def)

lemma wrap_less: "- int n \<le> j \<Longrightarrow> j < int n \<Longrightarrow> wrap n j < n"
  by (auto simp: wrap_def)

lemma assign_lines_Inr:
  assumes "assign_lines b m js = Inr m'" "shape m = [B, H, W]"
  shows "shape m' = [B, H, W]" "wf_tensor m'" "\<forall>j \<in> set js. - int W \<le> j \<and> j < int W"
    and "\<And>x h w. x < B \<Longrightarrow> h < H \<Longrightarrow> w < W \<Longrightarrow>
           elem m' [x, h, w] =
             (if (b = None \<or> b = Some x) \<and> w \<in> wrap W ` set js then 1 else elem m [x, h, w])"
proof -
  from assms have r: "\<forall>j \<in> set js. - int W \<le> j \<and> j < int W"
    and m': "m' = tabulate [B, H, W]
       (\<lambda>i. if (b = None \<or> b = Some (i ! 0)) \<and> i ! 2 \<in> set (map (wrap W) js) then 1
            else elem m i)"
    by (auto simp: assign_lines_def wrap_indices_Inr split: sum.splits)
  show "shape m' = [B, H, W]" "wf_tensor m'" by (simp_all add: m')
  show "\<forall>j \<in> set js. - int W \<le> j \<and> j < int W" by (rule r)
  fix x h w assume "x < B" "h < H" "w < W"
  then have "valid_index [B, H, W] [x, h, w]" by simp
  then show "elem m' [x, h, w] =
      (if (b = None \<or> b = Some x) \<and> w \<in> wrap W ` set js then 1 else elem m [x, h, w])"
    unfolding m' by (simp add: elem_tabulate)
qed

lemma assign_lines_ok:
  assumes "shape m = [B, H, W]" "\<forall>j \<in> set js. - int W \<le> j \<and> j < int W"
  shows "\<exists>m'. assign_lines b m js = Inr m'"
  using assms by (simp add: assign_lines_def wrap_indices_def)

lemma random_lines_Inr:
  assumes "random_lines Hi k draws is m = Inr m'" "shape m = [B, H, W]"
  shows "shape m' = [B, H, W] \<and> (is \<noteq> [] \<longrightarrow> k \<le> Hi) \<and>
         (\<forall>i \<in> set is. \<forall>j \<in> set (draws i). - int W \<le> j \<and> j < int W) \<and>
         (\<forall>x h w. x < B \<longrightarrow> h < H \<longrightarrow> w < W \<longrightarrow>
            elem m' [x, h, w] =
              (if x \<in> set is \<and> w \<in> wrap W ` set (draws x) then 1 else elem m [x, h, w]))"
  using assms
proof (induction "is" arbitrary: m)
  case Nil
  then show ?case by simp
next
  case (Cons i "is")
  from Cons.prems(1) obtain m1 where k: "k \<le> Hi"
    and a: "assign_lines (Some i) m (draws i) = Inr m1"
    and r: "random_lines Hi k draws is m1 = Inr m'"
    by (auto simp: np_random_choice_def split: sum.splits if_splits)
  note A = assign_lines_Inr[OF a Cons.prems(2)]
  from Cons.IH[OF r A(1)] have
    ih: "shape m' = [B, H, W]"
        "\<forall>i \<in> set is. \<forall>j \<in> set (draws i). - int W \<le> j \<and> j < int W"
        "\<And>x h w. x < B \<Longrightarrow> h < H \<Longrightarrow> w < W \<Longrightarrow>
            elem m' [x, h, w] =
              (if x \<in> set is \<and> w \<in> wrap W ` set (draws x) then 1 else elem m1 [x, h, w])"
    by simp_all
  have "elem m' [x, h, w] =
      (if x \<in> set (i # is) \<and> w \<in> wrap W ` set (draws x) then 1 else elem m [x, h, w])"
    if "x < B" "h < H" "w < W" for x h w
    using that by (auto simp: ih(3) A(4))
  with ih(1,2) A(3) k show ?case by simp
qed

lemma random_lines_ok:
  assumes "shape m = [B, H, W]" "k \<le> Hi"
    "\<forall>i \<in> set is. \<forall>j \<in> set (draws i). - int W \<le> j \<and> j < int W"
  shows "\<exists>m'. random_lines Hi k draws is m = Inr m'"
  using assms
proof (induction "is" arbitrary: m)
  case Nil
  then show ?case by simp
next
  case (Cons i "is")
  from Cons.prems obtain m1 where a: "assign_lines (Some i) m (draws i) = Inr m1"
    using assign_lines_ok[of m B H W "draws i" "Some i"] by auto
  from assign_lines_Inr(1)[OF a Cons.prems(1)] Cons.IH[of m1] Cons.prems
  obtain m' where "random_lines Hi k draws is m1 = Inr m'" by auto
  with a Cons.prems(2) show ?case by (simp add: np_random_choice_def)
qed

lemma elem_unsqueeze1:
  "shape m = [B, H, W] \<Longrightarrow> elem (unsqueeze1 m) [x, 0, h, w] = elem m [x, h, w]"
  by (simp add: elem_def unsqueeze1_def)

lemma cat1_replicate:
  assumes "shape m = [B, H, W]" "0 < n"
  shows "\<exists>t. cat1 (replicate n (unsqueeze1 m)) = Inr t \<and> shape t = [B, n, H, W] \<and>
           wf_tensor t \<and>
           (\<forall>x c h w. x < B \<longrightarrow> c < n \<longrightarrow> h < H \<longrightarrow> w < W \<longrightarrow>
              elem t [x, c, h, w] = elem m [x, h, w])"
proof -
  from assms(2) obtain n' where n: "n = Suc n'" by (cases n) auto
  define t where "t = tabulate [B, n, H, W]
     (\<lambda>i. elem (replicate n (unsqueeze1 m) ! (i ! 1)) [i ! 0, 0, i ! 2, i ! 3])"
  have "cat1 (replicate n (unsqueeze1 m)) = Inr t"
    using assms(1) by (simp add: cat1_def n t_def unsqueeze1_def)
  moreover have "elem t [x, c, h, w] = elem m [x, h, w]"
    if "x < B" "c < n" "h < H" "w < W" for x c h w
  proof -
    have "valid_index [B, n, H, W] [x, c, h, w]" using that by simp
    then show ?thesis
      using that assms(1) by (simp add: t_def elem_tabulate elem_unsqueeze1)
  qed
  ultimately show ?thesis by (simp add: t_def)
qed

lemma cat1_Nil: "cat1 (replicate 0 t) = Inl RuntimeError"
  by (simp add: cat1_def)

lemma step_Inr:
  assumes "step g bs draws = Inr r"
  shows "\<exists>C H W nc ns m.
     mask_dims g = Inr (C, H, W) \<and> density (acceleration g) W = Inr (Some (nc, ns)) \<and>
     0 \<le> bs \<and> 0 \<le> H \<and> 0 \<le> W \<and> 0 < C \<and>
     r = [''mask'' \<mapsto> m] \<and> shape m = [nat bs, nat C, nat H, nat W] \<and> wf_tensor m \<and>
     (\<forall>j \<in> set (center_line_indices H nc). - W \<le> j \<and> j < W) \<and>
     (\<forall>x < nat bs. \<forall>j \<in> set (draws x). - W \<le> j \<and> j < W) \<and>
     (0 < bs \<longrightarrow> ns div 2 \<le> H) \<and>
     (\<forall>x c h w. x < nat bs \<longrightarrow> c < nat C \<longrightarrow> h < nat H \<longrightarrow> w < nat W \<longrightarrow>
        elem m [x, c, h, w] =
          (if w \<in> wrap (nat W) ` (set (center_line_indices H nc) \<union> set (draws x))
           then 1 else 0))"
proof -
  from assms obtain C H W nc ns mask0 mask1 mk t where
    md: "mask_dims g = Inr (C, H, W)"
    and de: "density (acceleration g) W = Inr (Some (nc, ns))"
    and z: "torch_zeros [bs, H, W] = Inr mask0"
    and a: "assign_lines None mask0 (center_line_indices H nc) = Inr mask1"
    and rl: "random_lines H (ns div 2) draws [0..<nat bs] mask1 = Inr mk"
    and c: "cat1 (replicate (nat C) (unsqueeze1 mk)) = Inr t"
    and r: "r = [''mask'' \<mapsto> t]"
    by (auto simp: step_def split: sum.splits option.splits prod.splits)
  from z have nn: "0 \<le> bs" "0 \<le> H" "0 \<le> W" and m0: "mask0 = zeros [nat bs, nat H, nat W]"
    by (simp_all add: torch_zeros_Inr)
  have s0: "shape mask0 = [nat bs, nat H, nat W]" by (simp add: m0)
  note A = assign_lines_Inr[OF a s0]
  from random_lines_Inr[OF rl A(1)] have
    R: "shape mk = [nat bs, nat H, nat W]" "[0..<nat bs] \<noteq> [] \<longrightarrow> ns div 2 \<le> H"
       "\<forall>i \<in> set [0..<nat bs]. \<forall>j \<in> set (draws i). - int (nat W) \<le> j \<and> j < int (nat W)"
       "\<And>x h w. x < nat bs \<Longrightarrow> h < nat H \<Longrightarrow> w < nat W \<Longrightarrow>
            elem mk [x, h, w] =
              (if x \<in> set [0..<nat bs] \<and> w \<in> wrap (nat W) ` set (draws x) then 1
               else elem mask1 [x, h, w])"
    by simp_all
  have C: "0 < C"
  proof (rule ccontr)
    assume "\<not> 0 < C"
    then have "nat C = 0" by simp
    with c show False by (simp add: cat1_def)
  qed
  then have "0 < nat C" by simp
  from cat1_replicate[OF R(1) this] c have
    T: "shape t = [nat bs, nat C, nat H, nat W]" "wf_tensor t"
       "\<And>x c h w. x < nat bs \<Longrightarrow> c < nat C \<Longrightarrow> h < nat H \<Longrightarrow> w < nat W \<Longrightarrow>
              elem t [x, c, h, w] = elem mk [x, h, w]"
    by auto
  have E: "elem t [x, c, h, w] =
          (if w \<in> wrap (nat W) ` (set (center_line_indices H nc) \<union> set (draws x))
           then 1 else 0)"
    if "x < nat bs" "c < nat C" "h < nat H" "w < nat W" for x c h w
  proof -
    have "elem mask0 [x, h, w] = 0" using that by (simp add: m0 elem_zeros)
    with that show ?thesis
      by (simp add: T(3) R(4) A(4) image_Un)
  qed
  from A(3) nn have ci: "\<forall>j \<in> set (center_line_indices H nc). - W \<le> j \<and> j < W" by simp
  from R(3) nn have di: "\<forall>x < nat bs. \<forall>j \<in> set (draws x). - W \<le> j \<and> j < W" by simp
  from R(2) nn have k: "0 < bs \<longrightarrow> ns div 2 \<le> H" by auto
  from md de nn C r T(1,2) ci di k E show ?thesis by blast
qed

lemma step_ok:
  assumes "mask_dims g = Inr (C, H, W)" "density (acceleration g) W = Inr (Some (nc, ns))"
    and "0 \<le> bs" "0 \<le> H" "0 \<le> W" "0 < C"
    and "\<forall>j \<in> set (center_line_indices H nc). - W \<le> j \<and> j < W"
    and "\<forall>x < nat bs. \<forall>j \<in> set (draws x). - W \<le> j \<and> j < W"
    and "ns div 2 \<le> H"
  shows "\<exists>r. step g bs draws = Inr r"
proof -
  define mask0 where "mask0 = zeros [nat bs, nat H, nat W]"
  have z: "torch_zeros [bs, H, W] = Inr mask0"
    using assms(3-5) by (simp add: torch_zeros_Inr mask0_def)
  have s0: "shape mask0 = [nat bs, nat H, nat W]" by (simp add: mask0_def)
  from assms(5,7) have "\<forall>j \<in> set (center_line_indices H nc). - int (nat W) \<le> j \<and> j < int (nat W)"
    by simp
  from assign_lines_ok[OF s0 this] obtain mask1 where
    a: "assign_lines None mask0 (center_line_indices H nc) = Inr mask1" by blast
  note s1 = assign_lines_Inr(1)[OF a s0]
  from assms(5,8) have "\<forall>i \<in> set [0..<nat bs]. \<forall>j \<in> set (draws i). - int (nat W) \<le> j \<and> j < int (nat W)"
    by simp
  from random_lines_ok[OF s1 assms(9) this] obtain mk where
    rl: "random_lines H (ns div 2) draws [0..<nat bs] mask1 = Inr mk" by blast
  from random_lines_Inr[OF rl s1] have sk: "shape mk = [nat bs, nat H, nat W]" by simp
  from assms(6) have "0 < nat C" by simp
  from cat1_replicate[OF sk this] obtain t where
    c: "cat1 (replicate (nat C) (unsqueeze1 mk)) = Inr t" by blast
  show ?thesis
    by (simp add: step_def assms(1,2) z a rl c)
qed

lemma round_half_even_nonneg: "0 \<le> m \<Longrightarrow> 0 \<le> round_half_even m k"
  by (simp add: round_half_even_def Let_def pos_imp_zdiv_nonneg_iff)

lemma round53_nonneg: "0 \<le> m \<Longrightarrow> 0 \<le> fst (round53 m e)"
  by (simp add: round53_def Let_def round_half_even_nonneg sgn_if)

lemma float_of_int_nonneg: "float_of_int n = Inr x \<Longrightarrow> 0 \<le> n \<Longrightarrow> 0 \<le> fst x"
proof -
  assume a: "float_of_int n = Inr x" "0 \<le> n"
  then have "x = round53 n 0"
    by (cases "round53 n 0") (auto simp: float_of_int_def split: if_splits)
  with round53_nonneg[OF a(2), of 0] show ?thesis by simp
qed

lemma float_mul_nonneg: "0 \<le> fst x \<Longrightarrow> 0 \<le> fst y \<Longrightarrow> 0 \<le> fst (float_mul x y)"
  by (cases x; cases y) (simp add: float_mul_def round53_nonneg)

lemma int_of_float_nonneg: "0 \<le> fst x \<Longrightarrow> 0 \<le> int_of_float x"
  by (cases x) (simp add: int_of_float_def sgn_if pos_imp_zdiv_nonneg_iff)

lemma side_lines_percent_4: "float_sub lit_0_25 lit_0_08 = (6124895493223874, - 55)"
  by code_simp

lemma side_lines_percent_8: "float_sub lit_0_125 lit_0_04 = (6124895493223874, - 56)"
  by code_simp

lemma num_lines_nonneg:
  assumes "num_lines c t W = Inr (nc, ns)" "0 \<le> W" "0 \<le> fst c" "0 \<le> fst (float_sub t c)"
  shows "0 \<le> nc \<and> 0 \<le> ns"
proof -
  from assms(1) obtain w where w: "float_of_int W = Inr w"
    and nc: "nc = int_of_float (float_mul c w)"
    and ns: "ns = int_of_float (float_mul (float_sub t c) w)"
    by (auto simp: num_lines_def Let_def split: sum.splits)
  from float_of_int_nonneg[OF w assms(2)] assms(3,4) show ?thesis
    by (simp add: nc ns int_of_float_nonneg float_mul_nonneg)
qed

lemma map_sum_Some_Inr: "map_sum id Some x = Inr (Some y) \<longleftrightarrow> x = Inr y"
  by (cases x) auto

lemma density_nonneg:
  assumes "density acc W = Inr (Some (nc, ns))" "0 \<le> W"
  shows "0 \<le> nc \<and> 0 \<le> ns"
proof -
  from assms(1) consider "num_lines lit_0_08 lit_0_25 W = Inr (nc, ns)"
    | "num_lines lit_0_04 lit_0_125 W = Inr (nc, ns)"
    by (auto simp: density_def map_sum_Some_Inr split: if_splits)
  then show ?thesis
  proof cases
    case 1
    then show ?thesis
      using assms(2) by (rule num_lines_nonneg) (simp_all add: side_lines_percent_4, simp add: lit_0_08_def)
  next
    case 2
    then show ?thesis
      using assms(2) by (rule num_lines_nonneg) (simp_all add: side_lines_percent_8, simp add: lit_0_04_def)
  qed
qed

lemma density_16: "density 4 16 = Inr (Some (1, 2))"
  by code_simp

lemma mask_dims_gen16: "mask_dims gen16 = Inr (2, 16, 16)"
  by (simp add: mask_dims_def gen16_def AccelerationMaskGenerator_def)

lemma center_16: "set (center_line_indices 16 1) = {8..9}"
  by (simp add: center_line_indices_def linspace_50_set)



lemma step_gen16_ok: "\<exists>r. step gen16 1 draws16 = Inr r"
proof (rule step_ok[OF mask_dims_gen16])
  show "density (acceleration gen16) 16 = Inr (Some (1, 2))"
    by (simp add: gen16_def AccelerationMaskGenerator_def density_16)
  show "\<forall>j \<in> set (center_line_indices 16 1). - 16 \<le> j \<and> j < 16"
    by (simp add: center_16)
  show "\<forall>x < nat 1. \<forall>j \<in> set (draws16 x). - 16 \<le> j \<and> j < 16"
    by (simp add: draws16_def)
qed simp_all

lemma step_gen16:
  "\<exists>m. step gen16 1 draws16 = Inr [''mask'' \<mapsto> m] \<and> shape m = [1, 2, 16, 16] \<and>
       (\<forall>c h w. c < 2 \<longrightarrow> h < 16 \<longrightarrow> w < 16 \<longrightarrow>
          elem m [0, c, h, w] = (if w = 8 \<or> w = 9 \<or> w = 3 then 1 else 0))"
proof -
  from step_gen16_ok obtain r where r: "step gen16 1 draws16 = Inr r" by blast
  from step_Inr[OF r] obtain C H W nc ns m where
    md: "mask_dims gen16 = Inr (C, H, W)"
    and de: "density (acceleration gen16) W = Inr (Some (nc, ns))"
    and rm: "r = [''mask'' \<mapsto> m]" and sh: "shape m = [nat 1, nat C, nat H, nat W]"
    and el: "\<And>x c h w. x < nat 1 \<Longrightarrow> c < nat C \<Longrightarrow> h < nat H \<Longrightarrow> w < nat W \<Longrightarrow>
        elem m [x, c, h, w] =
          (if w \<in> wrap (nat W) ` (set (center_line_indices H nc) \<union> set (draws16 x))
           then 1 else 0)"
    by blast
  from md have d: "C = 2" "H = 16" "W = 16" by (simp_all add: mask_dims_gen16)
  with de have n: "nc = 1" "ns = 2"
    by (simp_all add: gen16_def AccelerationMaskGenerator_def density_16)
  have S: "wrap (nat 16) ` (set (center_line_indices 16 1) \<union> set (draws16 0)) = {8, 9, 3}"
  proof -
    have "{8..9::int} = {8, 9}" by auto
    then show ?thesis by (auto simp: wrap_def center_16 draws16_def)
  qed
  have E: "elem m [0, c, h, w] = (if w = 8 \<or> w = 9 \<or> w = 3 then 1 else 0)"
    if "c < 2" "h < 16" "w < 16" for c h w
  proof -
    have "elem m [0, c, h, w] =
        (if w \<in> wrap (nat W) ` (set (center_line_indices H nc) \<union> set (draws16 0))
         then 1 else 0)"
      using that by (intro el) (simp_all add: d)
    then have "elem m [0, c, h, w] = (if w \<in> {8, 9, 3} then 1 else 0)"
      by (simp only: d n S)
    then show ?thesis by simp
  qed
  have "shape m = [1, 2, 16, 16]" using sh d by simp
  moreover have "step gen16 1 draws16 = Inr [''mask'' \<mapsto> m]" using r rm by simp
  ultimately show ?thesis using E by blast
qed





section \<open>Properties of the binary64 haze operator\<close>

lemma haze_A_f64_elem:
  assumes "latent_state (im, d, al)"
  shows "\<exists>y. haze_A_f64 beta (im, d, al) = Inr y \<and> shape y = shape im \<and> wf_tensor y \<and>
           (\<forall>i. valid_index (shape im) i \<longrightarrow>
              elem y i = f_add (f_mul (transmittance64 beta d i) (elem im i))
                           (f_mul (f_sub one64 (transmittance64 beta d i)) (light_elem al i)))"
proof -
  from assms have wf: "wf_tensor im" "wf_tensor d"
    and bd: "broadcastable_to (shape d) (shape im)" and lo: "light_ok al (shape im)"
    by (simp_all add: latent_state_def)
  define t where "t = map_tensor f_exp (map_tensor (\<lambda>v. f_mul (f_neg beta) v) d)"
  define u where "u = map_tensor (\<lambda>v. f_sub one64 v) t"
  define p where "p = tabulate (shape im)
     (\<lambda>i. f_mul (elem t (bidx (shape t) i)) (elem im (bidx (shape im) i)))"
  have st: "shape t = shape d" "shape u = shape d" and wt: "wf_tensor t" "wf_tensor u"
    using wf by (simp_all add: t_def u_def)
  have et: "elem t j = f_exp (f_mul (f_neg beta) (elem d j))" if "valid_index (shape d) j" for j
    using that wf by (simp add: t_def elem_map_tensor)
  have eu: "elem u j = f_sub one64 (f_exp (f_mul (f_neg beta) (elem d j)))"
    if "valid_index (shape d) j" for j
    using that wt st by (simp add: u_def elem_map_tensor et)
  have P: "binop f_mul t im = Inr p"
    unfolding p_def using bd st by (simp add: binop_to)
  have ep: "elem p i = f_mul (transmittance64 beta d i) (elem im i)"
    if "valid_index (shape im) i" for i
    using that bd by (simp add: p_def elem_tabulate st et valid_bidx bidx_id transmittance64_def)
  have "\<exists>q. (case al of Scalar a \<Rightarrow> Inr (map_tensor (\<lambda>v. f_mul v a) u)
                  | Tensor ta \<Rightarrow> binop f_mul u ta) = Inr q \<and>
             broadcastable_to (shape q) (shape im) \<and> wf_tensor q \<and>
             (\<forall>i. valid_index (shape im) i \<longrightarrow>
                elem q (bidx (shape q) i) =
                  f_mul (f_sub one64 (transmittance64 beta d i)) (light_elem al i))"
  proof (cases al)
    case (Scalar a)
    have "elem (map_tensor (\<lambda>v. f_mul v a) u) (bidx (shape d) i) =
          f_mul (f_sub one64 (transmittance64 beta d i)) a" if "valid_index (shape im) i" for i
      using that bd wt st
      by (simp add: elem_map_tensor valid_bidx eu transmittance64_def)
    with Scalar bd wt st show ?thesis
      by (simp add: light_elem_def)
  next
    case (Tensor ta)
    with lo have wa: "wf_tensor ta" and ba: "broadcastable_to (shape ta) (shape im)"
      by (simp_all add: light_ok_def)
    from broadcast_shapes_join[OF bd ba] obtain s where
      s: "broadcast_shapes (shape d) (shape ta) = Some s" "broadcastable_to s (shape im)"
         "broadcastable_to (shape d) s" "broadcastable_to (shape ta) s" by blast
    define q where "q = tabulate s
       (\<lambda>i. f_mul (elem u (bidx (shape u) i)) (elem ta (bidx (shape ta) i)))"
    have Q: "binop f_mul u ta = Inr q"
      using s(1) st by (simp add: binop_def q_def)
    have "elem q (bidx s i) = f_mul (f_sub one64 (transmittance64 beta d i)) (light_elem al i)"
      if v: "valid_index (shape im) i" for i
    proof -
      have vs: "valid_index s (bidx s i)" using s(2) v by (rule valid_bidx)
      have "valid_index (shape d) (bidx (shape d) i)" using bd v by (rule valid_bidx)
      with vs v s show ?thesis
        by (simp add: q_def elem_tabulate st bidx_compose eu Tensor light_elem_def
            transmittance64_def)
    qed
    with Q s(2) Tensor show ?thesis
      by (simp add: q_def)
  qed
  then obtain q where
    Q: "(case al of Scalar a \<Rightarrow> Inr (map_tensor (\<lambda>v. f_mul v a) u)
                  | Tensor ta \<Rightarrow> binop f_mul u ta) = Inr q"
    and bq: "broadcastable_to (shape q) (shape im)"
    and eq: "\<And>i. valid_index (shape im) i \<Longrightarrow>
                elem q (bidx (shape q) i) =
                  f_mul (f_sub one64 (transmittance64 beta d i)) (light_elem al i)"
    by blast
  define y where "y = tabulate (shape im)
     (\<lambda>i. f_add (elem p (bidx (shape p) i)) (elem q (bidx (shape q) i)))"
  have sp: "shape p = shape im" by (simp add: p_def)
  have Y: "binop f_add p q = Inr y"
    unfolding y_def using bq sp by (simp add: binop_from)
  have "haze_A_f64 beta (im, d, al) =
      (case binop f_mul t im of Inl e \<Rightarrow> Inl e
       | Inr p \<Rightarrow>
           (case (case al of Scalar a \<Rightarrow> Inr (map_tensor (\<lambda>v. f_mul v a) u)
                  | Tensor ta \<Rightarrow> binop f_mul u ta) of
              Inl e \<Rightarrow> Inl e | Inr q \<Rightarrow> binop f_add p q))"
    by (simp only: haze_A_f64_def t_def u_def Let_def prod.case)
  then have "haze_A_f64 beta (im, d, al) = Inr y"
    by (simp only: P Q Y sum.case)
  moreover have "elem y i = f_add (f_mul (transmittance64 beta d i) (elem im i))
                         (f_mul (f_sub one64 (transmittance64 beta d i)) (light_elem al i))"
    if "valid_index (shape im) i" for i
    using that by (simp add: y_def elem_tabulate sp bidx_id ep eq)
  ultimately show ?thesis
    by (auto simp: y_def)
qed

lemma round_half_even_exact: "round_half_even (n * 2 ^ k) k = n"
  by (simp add: round_half_even_def Let_def)

lemma round64_zero: "\<exists>e'. round64 s 0 e = Fin s 0 e'"
  by (simp add: round64_def Let_def round_half_even_def)

lemma round64_shift:
  assumes "0 \<le> m" "m < 2 ^ 53" "- 1074 \<le> e" "e \<le> 971"
  shows "\<exists>i \<le> j. round64 s (m * 2 ^ j) (e - int j) = Fin s (m * 2 ^ i) (e - int i)"
proof -
  define k where "k = nat (max (bitlen (m * 2 ^ j) - 53) (- 1074 - (e - int j)))"
  have "m * 2 ^ j < 2 ^ 53 * 2 ^ j" using assms(2) by simp
  then have "m * 2 ^ j < 2 ^ nat (53 + int j)"
    by (simp add: nat_add_distrib power_add)
  then have b: "bitlen (m * 2 ^ j) \<le> 53 + int j"
    by (simp add: bitlen_le_iff_power)
  with assms(3) have kj: "k \<le> j" by (simp add: k_def)
  define i where "i = j - k"
  have mk: "m * 2 ^ j = (m * 2 ^ i) * 2 ^ k"
    using kj by (simp add: i_def power_add[symmetric])
  have r: "round_half_even (m * 2 ^ j) k = m * 2 ^ i"
    unfolding mk by (rule round_half_even_exact)
  have e': "e - int j + int k = e - int i" using kj by (simp add: i_def)
  have "bitlen (m * 2 ^ j) \<le> 53 + int k" unfolding k_def by linarith
  then have "m * 2 ^ j < 2 ^ nat (53 + int k)" by (simp add: bitlen_le_iff_power)
  then have "(m * 2 ^ i) * 2 ^ k < 2 ^ 53 * 2 ^ k"
    unfolding mk by (simp add: nat_add_distrib power_add)
  then have n53: "m * 2 ^ i < 2 ^ 53" by simp
  have no: "\<not> 2 ^ 1024 \<le> (m * 2 ^ i) * 2 ^ nat (e - int i)"
  proof -
    have "(m * 2 ^ i) * 2 ^ nat (e - int i) < 2 ^ 53 * 2 ^ 971"
    proof (cases "0 \<le> e - int i")
      case True
      then have "(m * 2 ^ i) * 2 ^ nat (e - int i) = m * 2 ^ nat e"
        by (simp add: power_add[symmetric] nat_diff_distrib flip: mult.assoc)
      also have "\<dots> < 2 ^ 53 * 2 ^ nat e" using assms(2) by simp
      also have "\<dots> \<le> 2 ^ 53 * 2 ^ 971"
      proof -
        have "(2::int) ^ nat e \<le> 2 ^ 971"
          using assms(4) by (intro power_increasing) simp_all
        then show ?thesis by (rule mult_left_mono) simp
      qed
      finally show ?thesis .
    next
      case False
      then have "(m * 2 ^ i) * 2 ^ nat (e - int i) = m * 2 ^ i" by simp
      also have "\<dots> < 2 ^ 53" by (rule n53)
      also have "\<dots> \<le> 2 ^ 53 * 2 ^ 971"
        using mult_left_mono[of 1 "2 ^ 971" "(2::int) ^ 53"] by (simp only: mult_1_right) simp
      finally show ?thesis .
    qed
    then show ?thesis by simp
  qed
  have "round64 s (m * 2 ^ j) (e - int j) = Fin s (m * 2 ^ i) (e - int i)"
    using no by (simp add: round64_def Let_def k_def[symmetric] r e')
  moreover have "i \<le> j" by (simp add: i_def)
  ultimately show ?thesis by blast
qed

lemma f_eq_shift: "f_eq (Fin s (m * 2 ^ i) (e - int i)) (Fin s m e)"
  by (simp add: scaled_def signed_def)

lemma nearest_int_of_int: "nearest_int (of_int n) = n"
  by (simp add: nearest_int_def)

lemma nearest64_one: "nearest64 1 = Fin False (2 ^ 52) (- 52)"
proof -
  have e: "max (\<lfloor>log 2 (1::real)\<rfloor> - 52) (- 1074) = - 52" by simp
  have p: "2 powr of_int (- 52) = (1::real) / 2 ^ 52"
    by (simp add: powr_minus_divide)
  have q: "(1::real) / 2 powr of_int (- 52) = of_int (2 ^ 52)"
    unfolding p by simp
  have n: "nearest_int (1 / 2 powr of_int (- 52)) = 2 ^ 52"
    unfolding q by (rule nearest_int_of_int)
  have "of_int (2 ^ 52) * 2 powr of_int (- 52) = (1::real)"
    unfolding p by simp
  moreover have "(1::real) < 2 ^ 1024" by (rule one_less_power) simp_all
  ultimately have c: "\<not> (2::real) ^ 1024 \<le> of_int (2 ^ 52) * 2 powr of_int (- 52)"
    by (simp only: not_le)
  show ?thesis
    unfolding nearest64_def Let_def e n using c by (simp only: if_False)
qed

lemma f_exp_zero: "f_exp (Fin s 0 e) = Fin False (2 ^ 52) (- 52)"
proof -
  have "valof (Fin s 0 e) = 0" by (simp add: valof_def signed_def)
  then have "f_exp (Fin s 0 e) = nearest64 1" by (simp add: f_exp_def)
  then show ?thesis by (simp only: nearest64_one)
qed

lemma one_minus_one: "f_sub one64 (Fin False (2 ^ 52) (- 52)) = Fin False 0 0"
  by (simp add: f_sub_def f_neg_def one64_def signed_def)

lemma f_mul_zero_left: "\<exists>e'. f_mul (Fin s 0 e) (Fin t n f) = Fin (s \<noteq> t) 0 e'"
  using round64_zero[of "s \<noteq> t" "e + f"] by simp

lemma finite64_cases:
  assumes "finite64 x"
  obtains s m e where "x = Fin s m e" "0 \<le> m" "m < 2 ^ 53" "- 1074 \<le> e" "e \<le> 971"
  using assms by (cases x) (auto simp: finite64_def)

lemma f_add_zero_right:
  assumes "0 \<le> m" "m < 2 ^ 53" "- 1074 \<le> e" "e \<le> 971"
  shows "f_eq (f_add (Fin s (m * 2 ^ i) (e - int i)) (Fin r 0 g)) (Fin s m e)"
proof (cases "m = 0")
  case True
  then show ?thesis by (simp add: scaled_def signed_def)
next
  case False
  with assms(1) have pos: "0 < m" by simp
  define g' where "g' = min (e - int i) g"
  define j' where "j' = nat (e - int i - g')"
  have g'e: "g' = e - int (i + j')" by (simp add: j'_def g'_def)
  define v where "v = signed s (m * 2 ^ i) * 2 ^ j'"
  have av: "\<bar>v\<bar> = m * 2 ^ (i + j')"
    using pos by (simp add: v_def signed_def power_add abs_mult)
  have sv: "(v < 0) = s"
    using pos by (simp add: v_def signed_def mult_less_0_iff)
  have v0: "v \<noteq> 0" using pos by (simp add: v_def signed_def)
  have "f_add (Fin s (m * 2 ^ i) (e - int i)) (Fin r 0 g) = round64 (v < 0) \<bar>v\<bar> g'"
    using v0 by (simp add: Let_def g'_def[symmetric] j'_def[symmetric] v_def[symmetric] signed_def[of r])
  also have "\<dots> = round64 s (m * 2 ^ (i + j')) (e - int (i + j'))"
    by (simp only: av sv g'e)
  finally obtain i2 where
    "f_add (Fin s (m * 2 ^ i) (e - int i)) (Fin r 0 g) = Fin s (m * 2 ^ i2) (e - int i2)"
    using round64_shift[OF assms, of "i + j'" s] by auto
  then show ?thesis by (simp only: f_eq_shift)
qed

lemma haze_pixel_zero:
  assumes "finite64 x" "finite64 dv" "finite64 a" "is_zero64 beta"
  shows "f_eq (f_add (f_mul (f_exp (f_mul (f_neg beta) dv)) x)
                 (f_mul (f_sub one64 (f_exp (f_mul (f_neg beta) dv))) a)) x"
proof -
  from assms(1) obtain s m e where
    x: "x = Fin s m e" and m: "0 \<le> m" "m < 2 ^ 53" "- 1074 \<le> e" "e \<le> 971"
    by (rule finite64_cases)
  from assms(2) obtain t n f where dv: "dv = Fin t n f" by (rule finite64_cases)
  from assms(3) obtain r k g where a: "a = Fin r k g" by (rule finite64_cases)
  from assms(4) obtain b eb where beta: "beta = Fin b 0 eb"
    by (cases beta) (auto simp: is_zero64_def)
  from f_mul_zero_left[of "\<not> b" eb t n f] obtain e1 where
    "f_mul (f_neg beta) dv = Fin ((\<not> b) \<noteq> t) 0 e1"
    by (auto simp: beta dv f_neg_def)
  then have t1: "f_exp (f_mul (f_neg beta) dv) = Fin False (2 ^ 52) (- 52)"
    by (simp only: f_exp_zero)
  have "f_mul (Fin False (2 ^ 52) (- 52)) x = round64 s (m * 2 ^ 52) (e - int 52)"
    by (simp add: x mult.commute)
  with round64_shift[OF m, of 52 s] obtain i where
    p: "f_mul (Fin False (2 ^ 52) (- 52)) x = Fin s (m * 2 ^ i) (e - int i)"
    by auto
  from f_mul_zero_left[of False 0 r k g] obtain e2 where
    q: "f_mul (Fin False 0 0) a = Fin r 0 e2"
    by (auto simp: a)
  show ?thesis
    unfolding t1 one_minus_one p q
    unfolding x by (rule f_add_zero_right[OF m])
qed

lemma light_elem_finite:
  assumes "light_ok al s" "finite_light al" "valid_index s i"
  shows "finite64 (light_elem al i)"
proof (cases al)
  case (Scalar a)
  with assms(2) show ?thesis by (simp add: finite_light_def light_elem_def)
next
  case (Tensor ta)
  with assms(1) have "wf_tensor ta" "broadcastable_to (shape ta) s"
    by (simp_all add: light_ok_def)
  with assms(3) have "elem ta (bidx (shape ta) i) \<in> set (elems ta)"
    by (simp add: elem_mem valid_bidx)
  with Tensor assms(2) show ?thesis
    by (simp add: finite_light_def light_elem_def list_all_iff)
qed

lemma latent64: "latent_state (im64, d64, Scalar (Fin False 5 0))"
  by (simp add: latent_state_def im64_def d64_def wf_tensor_def light_ok_def broadcastable_to_def)

lemma latent_px: "latent_state (px64 x, px64 dv, Scalar a)"
  by (simp add: latent_state_def px64_def wf_tensor_def light_ok_def broadcastable_to_def)

lemma haze_px:
  "out_elem (haze_A_f64 beta (px64 x, px64 dv, Scalar a)) [0, 0, 0, 0] =
     Some (f_add (f_mul (f_exp (f_mul (f_neg beta) dv)) x)
             (f_mul (f_sub one64 (f_exp (f_mul (f_neg beta) dv))) a))"
proof -
  have v: "valid_index (shape (px64 x)) [0, 0, 0, 0]" by (simp add: px64_def)
  from haze_A_f64_elem[OF latent_px, of beta x dv a] obtain y where
    y: "haze_A_f64 beta (px64 x, px64 dv, Scalar a) = Inr y"
    and e: "\<And>i. valid_index (shape (px64 x)) i \<Longrightarrow>
              elem y i = f_add (f_mul (transmittance64 beta (px64 dv) i) (elem (px64 x) i))
                (f_mul (f_sub one64 (transmittance64 beta (px64 dv) i)) (light_elem (Scalar a) i))"
    by blast
  have "transmittance64 beta (px64 dv) [0, 0, 0, 0] = f_exp (f_mul (f_neg beta) dv)"
    by (simp add: transmittance64_def px64_def elem_def bidx_def)
  moreover have "elem (px64 x) [0, 0, 0, 0] = x" by (simp add: px64_def elem_def)
  ultimately show ?thesis
    by (simp add: y out_elem_def e[OF v] light_elem_def)
qed

lemma f_add_NaN_right: "f_add x NaN = NaN"
  by (cases x) simp_all

lemma nearest_int_eq:
  assumes "of_int N - 1 / 2 < q" "q < of_int N + 1 / 2"
  shows "nearest_int q = N"
proof -
  have "\<lfloor>q\<rfloor> = N - 1 \<or> \<lfloor>q\<rfloor> = N" using assms by linarith
  then show ?thesis
  proof
    assume f: "\<lfloor>q\<rfloor> = N - 1"
    with assms(1) have "1 / 2 < q - of_int \<lfloor>q\<rfloor>" by simp
    with f show ?thesis by (simp add: nearest_int_def)
  next
    assume f: "\<lfloor>q\<rfloor> = N"
    with assms(2) have "q - of_int \<lfloor>q\<rfloor> < 1 / 2" by simp
    with f show ?thesis by (simp add: nearest_int_def)
  qed
qed

lemma taylor_exp_m1:
  "(\<Sum>m<22. (- 1::real) ^ m / fact m) = 72289643288657479 / 196503623737344000"
  by (simp add: eval_nat_numeral sum.lessThan_Suc)

lemma exp_m1_bounds:
  "72289643288657479 / 196503623737344000 < exp (- 1 :: real)"
  "exp (- 1 :: real) \<le> 72289643288657479 / 196503623737344000 + 3 / fact 22"
proof -
  from Maclaurin_exp_le[of "- 1" 22] obtain t :: real where
    t: "\<bar>t\<bar> \<le> 1" and
    e: "exp (- 1) = (\<Sum>m<22. (- 1::real) ^ m / fact m) + exp t / fact 22 * (- 1) ^ 22"
    by auto
  have e': "exp (- 1 :: real) = 72289643288657479 / 196503623737344000 + exp t / fact 22"
    unfolding e taylor_exp_m1 by simp
  have "0 < exp t / fact 22" by simp
  then show "72289643288657479 / 196503623737344000 < exp (- 1 :: real)"
    unfolding e' by simp
  have "exp t \<le> exp 1" using t by simp
  also have "\<dots> \<le> 3" by (rule exp_le)
  finally have "exp t / fact 22 \<le> 3 / fact 22" by (simp add: divide_right_mono)
  then show "exp (- 1 :: real) \<le> 72289643288657479 / 196503623737344000 + 3 / fact 22"
    unfolding e' by simp
qed

lemma nearest64_exp_m1: "nearest64 (exp (- 1)) = Fin False 6627126856707896 (- 54)"
proof -
  define r :: real where "r = exp (- 1)"
  have lo: "72289643288657479 / 196503623737344000 < r"
    and hi: "r \<le> 72289643288657479 / 196503623737344000 + 3 / fact 22"
    unfolding r_def by (rule exp_m1_bounds)+
  have f22: "(fact 22 :: real) = 1124000727777607680000"
    by (simp add: eval_nat_numeral)
  have r1: "1 / 4 \<le> r" using lo by simp
  have r2: "r < 1 / 2" using hi unfolding f22 by simp
  have rpos: "0 < r" using r1 by simp
  have "\<lfloor>log 2 r\<rfloor> = - 2"
  proof (rule floor_unique)
    have "2 powr (- 2) \<le> r" using r1 by (simp add: powr_minus_divide)
    then show "of_int (- 2) \<le> log 2 r" using rpos by (simp add: le_log_iff)
    have "r < 2 powr (- 1)" using r2 by (simp add: powr_minus_divide)
    then have "log 2 r < - 1" using rpos by (simp add: log_less_iff)
    then show "log 2 r < of_int (- 2) + 1" by simp
  qed
  then have e: "max (\<lfloor>log 2 r\<rfloor> - 52) (- 1074) = - 54" by simp
  have p: "2 powr of_int (- 54) = (1::real) / 2 ^ 54"
    by (simp add: powr_minus_divide)
  have q: "r / 2 powr of_int (- 54) = r * 2 ^ 54" unfolding p by simp
  have n: "nearest_int (r * 2 ^ 54) = 6627126856707896"
  proof (rule nearest_int_eq)
    show "of_int 6627126856707896 - 1 / 2 < r * 2 ^ 54" using lo by simp
    show "r * 2 ^ 54 < of_int 6627126856707896 + 1 / 2" using hi unfolding f22 by simp
  qed
  have "of_int 6627126856707896 * 2 powr of_int (- 54) < (1::real)"
    unfolding p by simp
  moreover have "(1::real) < 2 ^ 1024" by (rule one_less_power) simp_all
  ultimately have c: "\<not> (2::real) ^ 1024 \<le> of_int 6627126856707896 * 2 powr of_int (- 54)"
    by linarith
  show ?thesis
    unfolding r_def[symmetric] nearest64_def Let_def e q n using c by (simp only: if_False)
qed

lemma f_exp_m1: "f_exp (Fin True 1 0) = Fin False 6627126856707896 (- 54)"
proof -
  have "valof (Fin True 1 0) = - 1" by (simp add: valof_def signed_def)
  then have "f_exp (Fin True 1 0) = nearest64 (exp (- 1))" by (simp add: f_exp_def)
  then show ?thesis by (simp only: nearest64_exp_m1)
qed

lemma blend_09:
  "f_add (f_mul (Fin False 6627126856707896 (- 54)) (Fin False 8106479329266893 (- 53)))
     (f_mul (f_sub one64 (Fin False 6627126856707896 (- 54))) (Fin False 8106479329266893 (- 53)))
   = Fin False 8106479329266894 (- 53)"
  by code_simp

lemma neg_one: "f_mul (f_neg one64) one64 = Fin True 1 0"
  by code_simp

section \<open>Claims about the haze operator\<close>

text \<open>
  C1. For every latent state (image, depth, atmospheric light), \<open>A\<close> returns a
  tensor of the shape of the image whose value at every position is
  \<open>t * image + (1 - t) * light\<close> with \<open>t = exp (- beta * depth)\<close>, depth and
  light being read at the broadcast position.
\<close>

theorem haze_A_formula:
  assumes "latent_state (im, d, al)"
  shows "\<exists>y. haze_A beta (im, d, al) = Inr y \<and> shape y = shape im \<and>
           (\<forall>i. valid_index (shape im) i \<longrightarrow>
              elem y i = exp (- beta * elem d (bidx (shape d) i)) * elem im i +
                 (1 - exp (- beta * elem d (bidx (shape d) i))) * light_elem al i)"
  using haze_A_elem[OF assms, of beta] unfolding transmittance_def by blast

theorem haze_A_formula_witness:
  "latent_state (im0, d0, Scalar 5) \<and>
   (\<exists>y. haze_A (1/10) (im0, d0, Scalar 5) = Inr y \<and> shape y = [1, 2, 1, 2] \<and>
      elem y [0, 1, 0, 1] = exp (- (1/10)) * 4 + (1 - exp (- (1/10))) * 5)"
proof -
  have v: "valid_index (shape im0) [0, 1, 0, 1]" by (simp add: im0_def)
  from haze_A_formula[OF latent0, of "1/10"] obtain y where
    y: "haze_A (1/10) (im0, d0, Scalar 5) = Inr y" "shape y = shape im0"
    "\<And>i. valid_index (shape im0) i \<Longrightarrow>
       elem y i = exp (- (1/10) * elem d0 (bidx (shape d0) i)) * elem im0 i +
                 (1 - exp (- (1/10) * elem d0 (bidx (shape d0) i))) * light_elem (Scalar 5) i"
    by blast
  have "elem y [0, 1, 0, 1] = exp (- (1/10)) * 4 + (1 - exp (- (1/10))) * 5"
    using y(3)[OF v] by (simp add: im0_def d0_def elem_def bidx_def light_elem_def)
  with y(1,2) latent0 show ?thesis by (simp add: im0_def)
qed

text \<open>
  C3. In binary64 arithmetic the bound fails by rounding.  With \<open>beta = 1\<close>,
  depth 1 and image and light both the float nearest to 0.9, the transmittance
  is the float nearest to \<open>exp (- 1)\<close> and the output element is the next float
  above the image and the light.
\<close>

theorem haze_A_f64_rounding:
  "out_elem (haze_A_f64 one64
      (px64 (Fin False 8106479329266893 (- 53)), px64 one64,
       Scalar (Fin False 8106479329266893 (- 53)))) [0, 0, 0, 0] =
     Some (Fin False 8106479329266894 (- 53)) \<and>
   \<not> f_le (Fin False 8106479329266894 (- 53)) (Fin False 8106479329266893 (- 53))"
proof -
  have "out_elem (haze_A_f64 one64
      (px64 (Fin False 8106479329266893 (- 53)), px64 one64,
       Scalar (Fin False 8106479329266893 (- 53)))) [0, 0, 0, 0] =
     Some (Fin False 8106479329266894 (- 53))"
    unfolding haze_px neg_one f_exp_m1 blend_09 by (rule refl)
  moreover have "\<not> f_le (Fin False 8106479329266894 (- 53)) (Fin False 8106479329266893 (- 53))"
    by (simp add: scaled_def signed_def)
  ultimately show ?thesis by (rule conjI)
qed

text \<open>
  C3, in exact arithmetic.  With real numbers as elements, so that neither the
  exponential nor the blend is rounded, for \<open>beta \<ge> 0\<close> and a depth that is
  nowhere negative every element of the output of \<open>A\<close> lies between the element
  of the image and the atmospheric light at that position, bounds included.
\<close>

theorem haze_A_convex:
  assumes "latent_state (im, d, al)" "0 \<le> beta" "\<forall>v \<in> set (elems d). 0 \<le> v"
  shows "\<exists>y. haze_A beta (im, d, al) = Inr y \<and>
           (\<forall>i. valid_index (shape im) i \<longrightarrow>
              min (elem im i) (light_elem al i) \<le> elem y i \<and>
              elem y i \<le> max (elem im i) (light_elem al i))"
proof -
  from haze_A_elem[OF assms(1), of beta] obtain y where
    y: "haze_A beta (im, d, al) = Inr y"
    and e: "\<And>i. valid_index (shape im) i \<Longrightarrow>
              elem y i = transmittance beta d i * elem im i +
                         (1 - transmittance beta d i) * light_elem al i"
    by blast
  have "min (elem im i) (light_elem al i) \<le> elem y i \<and>
        elem y i \<le> max (elem im i) (light_elem al i)"
    if v: "valid_index (shape im) i" for i
  proof -
    have "0 \<le> transmittance beta d i" "transmittance beta d i \<le> 1"
      using transmittance_range[OF assms v] by simp_all
    then show ?thesis
      using convex_between[of "transmittance beta d i" "elem im i" "light_elem al i"]
      by (simp add: e[OF v])
  qed
  with y show ?thesis by blast
qed

theorem haze_A_convex_witness:
  "latent_state (im0, d0, Scalar 5) \<and> (0::real) \<le> 1/10 \<and> elems d0 = [0, 1] \<and>
   (\<exists>y. haze_A (1/10) (im0, d0, Scalar 5) = Inr y \<and>
      4 \<le> elem y [0, 1, 0, 1] \<and> elem y [0, 1, 0, 1] \<le> 5)"
proof -
  have v: "valid_index (shape im0) [0, 1, 0, 1]" by (simp add: im0_def)
  have nn: "\<forall>v \<in> set (elems d0). 0 \<le> v" by (simp add: d0_def)
  from haze_A_convex[OF latent0 _ nn, of "1/10"] obtain y where
    y: "haze_A (1/10) (im0, d0, Scalar 5) = Inr y"
    "\<And>i. valid_index (shape im0) i \<Longrightarrow>
       min (elem im0 i) (light_elem (Scalar 5) i) \<le> elem y i \<and>
       elem y i \<le> max (elem im0 i) (light_elem (Scalar 5) i)"
    by auto
  have "4 \<le> elem y [0, 1, 0, 1] \<and> elem y [0, 1, 0, 1] \<le> 5"
    using y(2)[OF v] by (simp add: im0_def elem_def light_elem_def)
  with y(1) latent0 show ?thesis by (simp add: d0_def)
qed

text \<open>
  C8. With \<open>beta = 0\<close> and an infinite atmospheric light the output element is
  NaN (the product of zero and infinity), not the element 2 of the image.
\<close>

theorem haze_A_f64_beta_zero_nan:
  "out_elem (haze_A_f64 (Fin False 0 0)
      (px64 (Fin False 1 1), px64 (Fin False 1 0), Scalar (Inf False))) [0, 0, 0, 0] = Some NaN \<and>
   elem (px64 (Fin False 1 1)) [0, 0, 0, 0] = Fin False 1 1"
proof -
  have t: "f_exp (f_mul (f_neg (Fin False 0 0)) (Fin False 1 0)) = Fin False (2 ^ 52) (- 52)"
  proof -
    obtain e' where "f_mul (f_neg (Fin False 0 0)) (Fin False 1 0) = Fin True 0 e'"
      using f_mul_zero_left[of True 0 False 1 0] by (auto simp: f_neg_def)
    then show ?thesis by (simp only: f_exp_zero)
  qed
  have "out_elem (haze_A_f64 (Fin False 0 0)
      (px64 (Fin False 1 1), px64 (Fin False 1 0), Scalar (Inf False))) [0, 0, 0, 0] =
    Some (f_add (f_mul (Fin False (2 ^ 52) (- 52)) (Fin False 1 1))
            (f_mul (Fin False 0 0) (Inf False)))"
    unfolding haze_px t one_minus_one by (rule refl)
  also have "\<dots> = Some NaN" by (simp add: f_add_NaN_right)
  finally show ?thesis by (simp add: px64_def elem_def)
qed

text \<open>
  C8, for finite states.  With \<open>beta\<close> a zero and image, depth and light finite
  binary64 values, \<open>A\<close> returns a tensor of the shape of the image whose
  every element compares equal to the element of the image (a negative zero
  of the image may come back as the positive zero).
\<close>

theorem haze_A_f64_beta_zero:
  assumes "latent_state (im, d, al)" "is_zero64 beta"
    and "list_all finite64 (elems im)" "list_all finite64 (elems d)" "finite_light al"
  shows "\<exists>y. haze_A_f64 beta (im, d, al) = Inr y \<and> shape y = shape im \<and>
           (\<forall>i. valid_index (shape im) i \<longrightarrow> f_eq (elem y i) (elem im i))"
proof -
  from assms(1) have wf: "wf_tensor im" "wf_tensor d"
    and bd: "broadcastable_to (shape d) (shape im)" and lo: "light_ok al (shape im)"
    by (simp_all add: latent_state_def)
  from haze_A_f64_elem[OF assms(1), of beta] obtain y where
    y: "haze_A_f64 beta (im, d, al) = Inr y" "shape y = shape im"
    and e: "\<And>i. valid_index (shape im) i \<Longrightarrow>
              elem y i = f_add (f_mul (transmittance64 beta d i) (elem im i))
                           (f_mul (f_sub one64 (transmittance64 beta d i)) (light_elem al i))"
    by blast
  have "f_eq (elem y i) (elem im i)" if v: "valid_index (shape im) i" for i
  proof -
    have "elem im i \<in> set (elems im)" using wf(1) v by (rule elem_mem)
    with assms(3) have fx: "finite64 (elem im i)" by (simp add: list_all_iff)
    have "elem d (bidx (shape d) i) \<in> set (elems d)"
      using wf(2) bd v by (simp add: elem_mem valid_bidx)
    with assms(4) have fd: "finite64 (elem d (bidx (shape d) i))" by (simp add: list_all_iff)
    have fa: "finite64 (light_elem al i)" using lo assms(5) v by (rule light_elem_finite)
    show ?thesis
      unfolding e[OF v] transmittance64_def
      by (rule haze_pixel_zero[OF fx fd fa assms(2)])
  qed
  with y show ?thesis by blast
qed

theorem haze_A_f64_beta_zero_witness:
  "latent_state (im64, d64, Scalar (Fin False 5 0)) \<and> is_zero64 (Fin False 0 0) \<and>
   list_all finite64 (elems im64) \<and> list_all finite64 (elems d64) \<and>
   finite_light (Scalar (Fin False 5 0)) \<and>
   (\<exists>y. haze_A_f64 (Fin False 0 0) (im64, d64, Scalar (Fin False 5 0)) = Inr y \<and>
        shape y = [1, 2, 1, 2] \<and> f_eq (elem y [0, 1, 0, 1]) (Fin False 3 0))"
proof -
  have z: "is_zero64 (Fin False 0 0)" by (simp add: is_zero64_def)
  have fi: "list_all finite64 (elems im64)" by (simp add: im64_def finite64_def)
  have fd: "list_all finite64 (elems d64)" by (simp add: d64_def finite64_def)
  have fl: "finite_light (Scalar (Fin False 5 0))" by (simp add: finite_light_def finite64_def)
  have v: "valid_index (shape im64) [0, 1, 0, 1]" by (simp add: im64_def)
  from haze_A_f64_beta_zero[OF latent64 z fi fd fl] obtain y where
    y: "haze_A_f64 (Fin False 0 0) (im64, d64, Scalar (Fin False 5 0)) = Inr y"
       "shape y = shape im64"
       "\<And>i. valid_index (shape im64) i \<Longrightarrow> f_eq (elem y i) (elem im64 i)"
    by blast
  have "elem im64 [0, 1, 0, 1] = Fin False 3 0" by (simp add: im64_def elem_def)
  with y(3)[OF v] have "f_eq (elem y [0, 1, 0, 1]) (Fin False 3 0)" by simp
  moreover have "shape y = [1, 2, 1, 2]" using y(2) by (simp add: im64_def)
  ultimately show ?thesis using latent64 z fi fd fl y(1) by blast
qed

text \<open>
  C2. For an observation \<open>y\<close> of shape \<open>(B, C, H, W)\<close>, \<open>A_adjoint\<close> returns the
  triple (image seed, depth seed, light seed) in this order: the image seed is
  \<open>y\<close> itself, the depth seed has shape \<open>(B, 1, H, W)\<close> and is 1 at every
  position, and the light seed is the scalar 1.  Depth and light seeds are the
  same for any two observations of equal shape.
\<close>

theorem A_adjoint_seed:
  "shape y = [b, c, h, w] \<Longrightarrow>
     (\<exists>d. haze_A_adjoint y = Inr (y, d, Scalar 1) \<and> shape d = [b, 1, h, w] \<and>
          wf_tensor d \<and> (\<forall>x \<in> set (elems d). x = 1) \<and>
          (\<forall>i. valid_index [b, 1, h, w] i \<longrightarrow> elem d i = 1)) \<and>
     (\<forall>y'. shape y' = shape y \<longrightarrow>
          map_sum id snd (haze_A_adjoint y') = map_sum id snd (haze_A_adjoint y))"
proof -
  assume s: "shape y = [b, c, h, w]"
  have "\<forall>i. valid_index [b, 1, h, w] i \<longrightarrow> elem (ones [b, 1, h, w]) i = 1"
    by (blast intro: elem_ones)
  moreover have "wf_tensor (ones [b, 1, h, w])"
    by (simp add: wf_tensor_def ones_def)
  moreover have "\<forall>x \<in> set (elems (ones [b, 1, h, w])). x = 1"
    by (simp add: ones_def)
  moreover have "haze_A_adjoint y = Inr (y, ones [b, 1, h, w], Scalar 1)"
    using s by (simp add: haze_A_adjoint_def)
  moreover have "\<forall>y'. shape y' = shape y \<longrightarrow>
      map_sum id snd (haze_A_adjoint y') = map_sum id snd (haze_A_adjoint y)"
    using s by (simp add: haze_A_adjoint_def)
  ultimately show ?thesis
    using shape_ones by blast
qed

theorem A_adjoint_seed_witness:
  "shape im0 = [1, 2, 1, 2] \<and>
   (\<exists>d. haze_A_adjoint im0 = Inr (im0, d, Scalar 1) \<and> shape d = [1, 1, 1, 2] \<and>
        elems d = [1, 1])"
proof -
  have s: "shape im0 = [1, 2, 1, 2]" by (simp add: im0_def)
  from A_adjoint_seed[OF s] obtain d where
    d: "haze_A_adjoint im0 = Inr (im0, d, Scalar 1)" "shape d = [1, 1, 1, 2]"
       "wf_tensor d" "\<forall>x \<in> set (elems d). x = 1"
    by blast
  from d(2,3) have "length (elems d) = 2" by (simp add: wf_tensor_def)
  with d(4) have "elems d = [1, 1]"
    by (cases "elems d"; cases "tl (elems d)") auto
  with s d show ?thesis by blast
qed


section \<open>Claims about the mask generator\<close>



text \<open>
  C5. With an acceleration factor other than 4 and 8 the first call of \<open>step\<close>
  does not raise a configuration error: it reads \<^verbatim>\<open>num_lines_center\<close>, which
  no branch has assigned, and ends in an \<^verbatim>\<open>UnboundLocalError\<close>.
\<close>

theorem step_unsupported_acceleration:
  "step (AccelerationMaskGenerator [16, 16] 5) 1 draws16 =
     Inl (UnboundLocalError ''num_lines_center'')"
  by (simp add: step_def mask_dims_def density_def torch_zeros_def
      AccelerationMaskGenerator_def)

text \<open>
  C6. In the mask of the documented example the row \<open>h = 0\<close> of batch element 0,
  channel 0, holds a 1 at \<open>w = 8\<close> and a 0 at \<open>w = 0\<close>: a row is neither all 1
  nor all 0.
\<close>

theorem step_rows_not_uniform:
  "mask_elem (step gen16 1 draws16) [0, 0, 0, 8] = Some 1 \<and>
   mask_elem (step gen16 1 draws16) [0, 0, 0, 0] = Some 0"
proof -
  from step_gen16 obtain m where
    "step gen16 1 draws16 = Inr [''mask'' \<mapsto> m]"
    "\<And>c h w. c < 2 \<Longrightarrow> h < 16 \<Longrightarrow> w < 16 \<Longrightarrow>
          elem m [0, c, h, w] = (if w = 8 \<or> w = 9 \<or> w = 3 then 1 else 0)"
    by blast
  then show ?thesis by (simp add: mask_elem_def)
qed

text \<open>
  C6, as the code has it: the lines are vertical.  In every mask that \<open>step\<close>
  returns, each column of the \<open>(H, W)\<close> grid (a fixed position \<open>w\<close> of the last
  axis) is all 1 or all 0.
\<close>

theorem step_columns_uniform:
  assumes "step g batch_size draws = Inr r"
  shows "\<exists>C H W m. mask_dims g = Inr (C, H, W) \<and> r ''mask'' = Some m \<and>
           (\<forall>x < nat batch_size. \<forall>c < nat C. \<forall>w < nat W.
              (\<forall>h < nat H. elem m [x, c, h, w] = 1) \<or>
              (\<forall>h < nat H. elem m [x, c, h, w] = 0))"
proof -
  from step_Inr[OF assms] obtain C H W nc ns m where
    md: "mask_dims g = Inr (C, H, W)" and rm: "r = [''mask'' \<mapsto> m]"
    and el: "\<And>x c h w. x < nat batch_size \<Longrightarrow> c < nat C \<Longrightarrow> h < nat H \<Longrightarrow> w < nat W \<Longrightarrow>
        elem m [x, c, h, w] =
          (if w \<in> wrap (nat W) ` (set (center_line_indices H nc) \<union> set (draws x))
           then 1 else 0)"
    by blast
  have "(\<forall>h < nat H. elem m [x, c, h, w] = 1) \<or> (\<forall>h < nat H. elem m [x, c, h, w] = 0)"
    if "x < nat batch_size" "c < nat C" "w < nat W" for x c w
    using that by (simp add: el)
  with md rm show ?thesis by auto
qed

theorem step_columns_uniform_witness:
  "\<exists>r m. step gen16 1 draws16 = Inr r \<and> r ''mask'' = Some m \<and>
     ((\<forall>h < 16. elem m [0, 1, h, 9] = 1) \<or> (\<forall>h < 16. elem m [0, 1, h, 9] = 0))"
proof -
  from step_gen16_ok obtain r where r: "step gen16 1 draws16 = Inr r" by blast
  from step_columns_uniform[OF r] obtain C H W m where
    "mask_dims gen16 = Inr (C, H, W)" "r ''mask'' = Some m"
    "\<forall>x < nat 1. \<forall>c < nat C. \<forall>w < nat W.
        (\<forall>h < nat H. elem m [x, c, h, w] = 1) \<or> (\<forall>h < nat H. elem m [x, c, h, w] = 0)"
    by blast
  moreover from this have "C = 2" "H = 16" "W = 16" by (simp_all add: mask_dims_gen16)
  ultimately have "(\<forall>h < 16. elem m [0, 1, h, 9] = 1) \<or> (\<forall>h < 16. elem m [0, 1, h, 9] = 0)"
    by simp
  with r \<open>r ''mask'' = Some m\<close> show ?thesis by blast
qed

text \<open>
  C7. The indices of the deterministic band are always 50 in number, whatever
  \<^verbatim>\<open>num_lines_center\<close> is; they are the values evenly spaced from
  \<open>H div 2 - num_lines_center div 2\<close> to \<open>H div 2 + num_lines_center div 2 + 1\<close>,
  fractions dropped; and in every mask returned the line at each of these
  indices (a position of the last axis, counted from the end when negative) is
  1 for every batch element, channel and row.
\<close>

theorem center_band:
  assumes "step g batch_size draws = Inr r"
  shows "\<exists>C H W nc ns m.
     mask_dims g = Inr (C, H, W) \<and> density (acceleration g) W = Inr (Some (nc, ns)) \<and>
     r ''mask'' = Some m \<and>
     length (center_line_indices H nc) = 50 \<and>
     center_line_indices H nc ! 0 = H div 2 - nc div 2 \<and>
     center_line_indices H nc ! 49 = H div 2 + nc div 2 + 1 \<and>
     (\<forall>i < 50. center_line_indices H nc ! i =
        trunc (of_int (H div 2 - nc div 2) +
               of_nat i * (of_int ((H div 2 + nc div 2 + 1) - (H div 2 - nc div 2)) / 49))) \<and>
     (\<forall>j \<in> set (center_line_indices H nc). - W \<le> j \<and> j < W \<and>
        (\<forall>x < nat batch_size. \<forall>c < nat C. \<forall>h < nat H.
           elem m [x, c, h, wrap (nat W) j] = 1))"
proof -
  from step_Inr[OF assms] obtain C H W nc ns m where
    md: "mask_dims g = Inr (C, H, W)"
    and de: "density (acceleration g) W = Inr (Some (nc, ns))"
    and nn: "0 \<le> W"
    and rm: "r = [''mask'' \<mapsto> m]"
    and ci: "\<forall>j \<in> set (center_line_indices H nc). - W \<le> j \<and> j < W"
    and el: "\<And>x c h w. x < nat batch_size \<Longrightarrow> c < nat C \<Longrightarrow> h < nat H \<Longrightarrow> w < nat W \<Longrightarrow>
        elem m [x, c, h, w] =
          (if w \<in> wrap (nat W) ` (set (center_line_indices H nc) \<union> set (draws x))
           then 1 else 0)"
    by blast
  let ?a = "H div 2 - nc div 2" and ?b = "H div 2 + nc div 2 + 1"
  have nth: "center_line_indices H nc ! i = trunc (lin_value ?a ?b i)" if "i < 50" for i
    using that by (simp add: center_line_indices_def linspace_50 del: upt_Suc)
  have L0: "lin_value ?a ?b 0 = of_int ?a" by (simp add: lin_value_def)
  have L49: "lin_value ?a ?b 49 = of_int ?b" by (simp add: lin_value_def diff_divide_distrib)
  have "center_line_indices H nc ! 0 = trunc (lin_value ?a ?b 0)" by (rule nth) simp
  also have "\<dots> = trunc (of_int ?a)" by (simp only: L0)
  also have "\<dots> = ?a" by (rule trunc_of_int)
  finally have n0: "center_line_indices H nc ! 0 = ?a" .
  have "center_line_indices H nc ! 49 = trunc (lin_value ?a ?b 49)" by (rule nth) simp
  also have "\<dots> = trunc (of_int ?b)" by (simp only: L49)
  also have "\<dots> = ?b" by (rule trunc_of_int)
  finally have n49: "center_line_indices H nc ! 49 = ?b" .
  have nthall: "\<forall>i < 50. center_line_indices H nc ! i =
        trunc (of_int ?a + of_nat i * (of_int (?b - ?a) / 49))"
    using nth unfolding lin_value_def by blast
  have set1: "elem m [x, c, h, wrap (nat W) j] = 1"
    if "j \<in> set (center_line_indices H nc)" "x < nat batch_size" "c < nat C" "h < nat H"
    for j x c h
  proof -
    from ci that(1) nn have "wrap (nat W) j < nat W" by (intro wrap_less) simp_all
    with that show ?thesis by (simp add: el)
  qed
  have setall: "\<forall>j \<in> set (center_line_indices H nc). - W \<le> j \<and> j < W \<and>
        (\<forall>x < nat batch_size. \<forall>c < nat C. \<forall>h < nat H.
           elem m [x, c, h, wrap (nat W) j] = 1)"
    using ci set1 by blast
  have rm': "r ''mask'' = Some m" by (simp add: rm)
  have len: "length (center_line_indices H nc) = 50" by simp
  show ?thesis
    apply (rule exI[of _ C], rule exI[of _ H], rule exI[of _ W])
    apply (rule exI[of _ nc], rule exI[of _ ns], rule exI[of _ m])
    apply (intro conjI)
           apply (fact md)
          apply (fact de)
         apply (fact rm')
        apply (fact len)
       apply (fact n0)
      apply (fact n49)
     apply (fact nthall)
    apply (fact setall)
    done
qed

theorem center_band_witness:
  "\<exists>r m. step gen16 1 draws16 = Inr r \<and> r ''mask'' = Some m \<and>
     length (center_line_indices 16 1) = 50 \<and>
     elem m [0, 0, 5, 8] = 1 \<and> elem m [0, 1, 7, 9] = 1"
proof -
  from step_gen16_ok obtain r where r: "step gen16 1 draws16 = Inr r" by blast
  from center_band[OF r] obtain C H W nc ns m where
    c: "mask_dims gen16 = Inr (C, H, W)"
       "density (acceleration gen16) W = Inr (Some (nc, ns))"
       "r ''mask'' = Some m"
       "\<forall>j \<in> set (center_line_indices H nc).
          \<forall>x < nat 1. \<forall>c < nat C. \<forall>h < nat H. elem m [x, c, h, wrap (nat W) j] = 1"
    by blast
  from c(1) have d: "C = 2" "H = 16" "W = 16" by (simp_all add: mask_dims_gen16)
  with c(2) have n: "nc = 1"
    by (simp add: gen16_def AccelerationMaskGenerator_def density_16)
  from c(4) have "elem m [0, 0, 5, wrap 16 8] = 1" "elem m [0, 1, 7, wrap 16 9] = 1"
    by (simp_all add: d n center_16)
  then have "elem m [0, 0, 5, 8] = 1" "elem m [0, 1, 7, 9] = 1"
    by (simp_all add: wrap_def)
  with r c(3) show ?thesis by auto
qed

text \<open>
  C9. When \<^verbatim>\<open>img_size\<close> has neither 2 nor 3 entries, \<open>step\<close> raises the
  \<^verbatim>\<open>ValueError\<close> of line 52, for every batch size, factor and random source.
\<close>

theorem step_img_size_error:
  assumes "length (img_size g) \<noteq> 2" "length (img_size g) \<noteq> 3"
  shows "step g batch_size draws = Inl (ValueError ''img_size must be (C, H, W) or (H, W)'')"
proof -
  have "mask_dims g = Inl (ValueError ''img_size must be (C, H, W) or (H, W)'')"
    using assms by (auto simp: mask_dims_def split: list.splits)
  then show ?thesis by (simp add: step_def)
qed

theorem step_img_size_error_witness:
  "length (img_size (AccelerationMaskGenerator [16] 4)) \<noteq> 2 \<and>
   length (img_size (AccelerationMaskGenerator [16] 4)) \<noteq> 3 \<and>
   step (AccelerationMaskGenerator [16] 4) 1 draws16 =
     Inl (ValueError ''img_size must be (C, H, W) or (H, W)'')"
  using step_img_size_error[of "AccelerationMaskGenerator [16] 4" 1 draws16]
  by (simp add: AccelerationMaskGenerator_def)

text \<open>
  C10. Where line 69 is reached (the sizes and the density parameters are set
  and the zero mask exists) and the two ends of the band are at most 49 apart,
  the distinct band indices are exactly the integers from
  \<open>H div 2 - num_lines_center div 2\<close> to \<open>H div 2 + num_lines_center div 2 + 1\<close>,
  both included.
\<close>

theorem center_band_contiguous:
  assumes "mask_dims g = Inr (C, H, W)"
    and "density (acceleration g) W = Inr (Some (num_lines_center, num_lines_side))"
    and "torch_zeros [batch_size, H, W] = Inr mask0"
    and "(H div 2 + num_lines_center div 2 + 1) - (H div 2 - num_lines_center div 2) \<le> 49"
  shows "set (center_line_indices H num_lines_center) =
           {H div 2 - num_lines_center div 2 .. H div 2 + num_lines_center div 2 + 1}"
proof -
  from assms(3) have "0 \<le> W" by (simp add: torch_zeros_Inr)
  with assms(2) have "0 \<le> num_lines_center" by (simp add: density_nonneg)
  then have "H div 2 - num_lines_center div 2 \<le> H div 2 + num_lines_center div 2 + 1"
    by (simp add: pos_imp_zdiv_nonneg_iff add_increasing2)
  from linspace_50_set[OF this assms(4)] show ?thesis
    by (simp add: center_line_indices_def)
qed

theorem center_band_contiguous_witness:
  "mask_dims gen16 = Inr (2, 16, 16) \<and>
   density (acceleration gen16) 16 = Inr (Some (1, 2)) \<and>
   torch_zeros [1, 16, 16] = Inr (zeros [1, 16, 16]) \<and>
   ((16::int) div 2 + 1 div 2 + 1) - (16 div 2 - 1 div 2) \<le> 49 \<and>
   set (center_line_indices 16 1) = {8..9}"
proof -
  have a: "density (acceleration gen16) 16 = Inr (Some (1, 2))"
    by (simp add: gen16_def AccelerationMaskGenerator_def density_16)
  have b: "torch_zeros [1, 16, 16] = Inr (zeros [1, 16, 16])"
    by (simp add: torch_zeros_def)
  have c: "((16::int) div 2 + 1 div 2 + 1) - (16 div 2 - 1 div 2) \<le> 49" by simp
  from center_band_contiguous[OF mask_dims_gen16 a b c] mask_dims_gen16 a b
  show ?thesis by simp
qed

end
